theory Spec2Isabelle
  imports
    Complex_Main
    "HOL-Library.Char_ord"
    "HOL-Library.List_Lexorder"
    "HOL-Library.Multiset"
begin

section \<open>The entry store of \<^verbatim>\<open>dev_journal.py\<close>\<close>

text \<open>
  The journal keeps its entries in one SQLite file. The model below is a shallow
  embedding of the persistence and query layer of \<^verbatim>\<open>dev_journal.py\<close>:
  \<^item> a Python \<^verbatim>\<open>str\<close> that is an argument or a \<^verbatim>\<open>TEXT\<close> column is a \<^typ>\<open>string\<close>: a
    character is a code point below 256, and strings are compared as SQLite's
    \<^verbatim>\<open>BINARY\<close> collation and Python compare them, lexicographically by code point;
  \<^item> an item of one of the four lists, which goes through JSON, is a \<open>str\<close>: the list
    of its code points, whatever they are, since JSON treats the code points beyond the
    printable ASCII ones, and the surrogates among them, each in its own way;
  \<^item> \<^verbatim>\<open>focus_hours\<close> (a \<^verbatim>\<open>REAL\<close> column, a Python float) is the \<^typ>\<open>real\<close> that the float
    denotes (the infinities and NaN, which denote none, are left out); floating-point
    arithmetic is not modelled, so the \<^verbatim>\<open>sum()\<close> of \<^verbatim>\<open>cmd_weekly\<close> is a parameter;
  \<^item> the file system is a parameter: what writing the export file does;
  \<^item> an exception that leaves a function is a value \<open>Inl e\<close>; \<^verbatim>\<open>sys.exit(n)\<close> is the
    exception \<open>SystemExit n\<close>;
  \<^item> the clock (\<^verbatim>\<open>date.today()\<close>, \<^verbatim>\<open>datetime.now()\<close>) is a parameter;
  \<^item> printing to the terminal is not modelled: a command returns the values it prints.
\<close>

subsection \<open>Exceptions and constants\<close>

datatype error =
    SystemExit int
  | OperationalError
  | ValueError
  | OverflowError
  | JSONDecodeError
  | OSError
  | Unmodelled

definition MOODS :: "string list" where
  "MOODS = [''great'', ''good'', ''ok'', ''rough'']"

subsection \<open>The schema\<close>

text \<open>A row of the table \<^verbatim>\<open>entries\<close>; the four list columns hold JSON text.\<close>

record row =
  col_id :: int
  col_date :: string
  col_title :: string
  col_body :: string
  col_tags_json :: string
  col_mood :: string
  col_focus_hours :: real
  col_accomplishments :: string
  col_blockers :: string
  col_tomorrow :: string
  col_created_at :: string

text \<open>
  A document of the full-text index \<^verbatim>\<open>entries_fts\<close>: the row id and the three
  indexed columns, as the trigger \<^verbatim>\<open>entries_ai\<close> hands them to the index.
\<close>

record fts_doc =
  rowid :: int
  fts_title :: string
  fts_body :: string
  fts_tags_json :: string

text \<open>
  The table \<^verbatim>\<open>entries\<close> with its \<^verbatim>\<open>AUTOINCREMENT\<close> counter (the row of
  \<^verbatim>\<open>sqlite_sequence\<close>), and the database file: each of the five schema objects that
  \<^verbatim>\<open>get_db\<close> creates is present or absent. A new file has none of them.
\<close>

record entries_table =
  seq :: int
  rows :: "row list"

record store =
  entries :: "entries_table option"
  entries_fts :: "fts_doc list option"
  entries_ai :: bool
  entries_ad :: bool
  entries_au :: bool

definition new_file :: store where
  "new_file = \<lparr>entries = None, entries_fts = None,
     entries_ai = False, entries_ad = False, entries_au = False\<rparr>"

definition all_rows :: "store \<Rightarrow> row list" where
  "all_rows s = (case entries s of None \<Rightarrow> [] | Some t \<Rightarrow> rows t)"

definition all_docs :: "store \<Rightarrow> fts_doc list" where
  "all_docs s = (case entries_fts s of None \<Rightarrow> [] | Some ds \<Rightarrow> ds)"

text \<open>
  \<^verbatim>\<open>get_db\<close>: the script of five \<^verbatim>\<open>CREATE ... IF NOT EXISTS\<close> statements. Each creates
  its object when it is absent (the table and the index empty) and leaves it alone
  otherwise. Opening the file itself is assumed to succeed.
\<close>

definition get_db :: "store \<Rightarrow> store" where
  "get_db s =
     s\<lparr>entries := Some (case entries s of None \<Rightarrow> \<lparr>seq = 0, rows = []\<rparr> | Some t \<Rightarrow> t),
       entries_fts := Some (case entries_fts s of None \<Rightarrow> [] | Some ds \<Rightarrow> ds),
       entries_ai := True,
       entries_ad := True,
       entries_au := True\<rparr>"

subsection \<open>JSON text of a list of strings\<close>

text \<open>
  The items of the lists: a \<open>str\<close> is the list of the code points of a Python
  \<^verbatim>\<open>str\<close>, which are below \<^verbatim>\<open>0x110000\<close> and may be surrogates. \<open>U\<close> is the \<open>str\<close> of a
  string of code points below 256. \<open>join_pair\<close> is the character for which a high
  and a low surrogate stand together.
\<close>

type_synonym str = "nat list"

definition U :: "string \<Rightarrow> str" where
  "U cs = map of_char cs"

definition high_surrogate :: "nat \<Rightarrow> bool" where
  "high_surrogate n \<longleftrightarrow> 0xD800 \<le> n \<and> n \<le> 0xDBFF"

definition low_surrogate :: "nat \<Rightarrow> bool" where
  "low_surrogate n \<longleftrightarrow> 0xDC00 \<le> n \<and> n \<le> 0xDFFF"

definition join_pair :: "nat \<Rightarrow> nat \<Rightarrow> nat" where
  "join_pair hi lo = 0x10000 + ((hi - 0xD800) * 1024 + (lo - 0xDC00))"

definition valid_str :: "str \<Rightarrow> bool" where
  "valid_str s \<longleftrightarrow> list_all (\<lambda>n. n < 0x110000) s"

text \<open>
  The list columns are written with \<^verbatim>\<open>json.dumps\<close> and read with \<^verbatim>\<open>json.loads\<close>.
  \<^verbatim>\<open>json.dumps\<close> of a list of strings, with its defaults (\<^verbatim>\<open>ensure_ascii=True\<close>, item
  separator \<^verbatim>\<open>", "\<close>): the quote, the backslash and every character outside
  \<^verbatim>\<open>' '..'~'\<close> are escaped, by the short escapes of \<^verbatim>\<open>ESCAPE_DCT\<close> or as four
  lower-case hexadecimal digits after a backslash and \<^verbatim>\<open>u\<close>; a character from
  \<^verbatim>\<open>0x10000\<close> on is written as two such escapes, of its high and of its low surrogate
  (\<^verbatim>\<open>0xd800 | ((n >> 10) & 0x3ff)\<close> and \<^verbatim>\<open>0xdc00 | (n & 0x3ff)\<close> for the character
  less \<^verbatim>\<open>0x10000\<close>). The text is ASCII.
\<close>

definition hexdigit :: "nat \<Rightarrow> char" where
  "hexdigit k = ''0123456789abcdef'' ! k"

definition hex4 :: "nat \<Rightarrow> string" where
  "hex4 n = [hexdigit (n div 4096 mod 16), hexdigit (n div 256 mod 16),
             hexdigit (n div 16 mod 16), hexdigit (n mod 16)]"

definition escape_char :: "nat \<Rightarrow> string" where
  "escape_char n =
     (if n = 0x5C then [CHR 0x5C, CHR 0x5C]
      else if n = 0x22 then [CHR 0x5C, CHR 0x22]
      else if n = 0x08 then [CHR 0x5C, CHR ''b'']
      else if n = 0x0C then [CHR 0x5C, CHR ''f'']
      else if n = 0x0A then [CHR 0x5C, CHR ''n'']
      else if n = 0x0D then [CHR 0x5C, CHR ''r'']
      else if n = 0x09 then [CHR 0x5C, CHR ''t'']
      else if 32 \<le> n \<and> n \<le> 126 then [char_of n]
      else if n < 0x10000 then CHR 0x5C # CHR ''u'' # hex4 n
      else
        (let v = n - 0x10000;
             s1 = 0xD800 + v div 1024 mod 1024;
             s2 = 0xDC00 + v mod 1024
         in CHR 0x5C # CHR ''u'' # hex4 s1 @ CHR 0x5C # CHR ''u'' # hex4 s2))"

definition encode_basestring_ascii :: "str \<Rightarrow> string" where
  "encode_basestring_ascii s = CHR 0x22 # concat (map escape_char s) @ [CHR 0x22]"

fun join :: "string \<Rightarrow> string list \<Rightarrow> string" where
  "join sep [] = []"
| "join sep [x] = x"
| "join sep (x # y # ys) = x @ sep @ join sep (y # ys)"

definition json_dumps :: "str list \<Rightarrow> string" where
  "json_dumps xs = ''['' @ join '', '' (map encode_basestring_ascii xs) @ '']''"

text \<open>
  \<^verbatim>\<open>json.loads\<close>, on the texts that are arrays of strings. \<open>scanstring\<close> reads a string
  after its opening quote (strict mode: a raw control character is an error) and
  returns it with the rest of the text; \<open>JSONArray\<close> reads the items after the opening
  bracket; \<open>json_loads\<close> skips the white space around the value and refuses extra
  data. A text that is no JSON text gives \<open>JSONDecodeError\<close>, as in Python: an error
  inside a string or between the items, or a character that starts no value where
  the value or an item must start. Where a value of another kind may start there (an
  object, a list within the list, a string that is not in a list, a number or one of
  the constants: \<open>value_start\<close> has their first characters), the text is no list of
  strings, or is malformed further on: the model gives \<open>Unmodelled\<close>, and follows the
  program no further.
\<close>

definition value_start :: "char \<Rightarrow> bool" where
  "value_start c \<longleftrightarrow> c \<in> set (CHR 0x22 # ''{[-0123456789tfnNI'')"

definition hexval :: "char \<Rightarrow> nat option" where
  "hexval c =
     (let n = (of_char c :: nat) in
      if 48 \<le> n \<and> n \<le> 57 then Some (n - 48)
      else if 97 \<le> n \<and> n \<le> 102 then Some (n - 87)
      else if 65 \<le> n \<and> n \<le> 70 then Some (n - 55)
      else None)"

definition decode_uXXXX :: "string \<Rightarrow> error + nat" where
  "decode_uXXXX esc =
     (case map hexval esc of
        [Some a, Some b, Some c, Some d] \<Rightarrow> Inr (((a * 16 + b) * 16 + c) * 16 + d)
      | _ \<Rightarrow> Inl JSONDecodeError)"

definition BACKSLASH :: "char \<Rightarrow> nat option" where
  "BACKSLASH c =
     (if c = CHR 0x22 then Some 0x22
      else if c = CHR 0x5C then Some 0x5C
      else if c = CHR ''/'' then Some 0x2F
      else if c = CHR ''b'' then Some 0x08
      else if c = CHR ''f'' then Some 0x0C
      else if c = CHR ''n'' then Some 0x0A
      else if c = CHR ''r'' then Some 0x0D
      else if c = CHR ''t'' then Some 0x09
      else None)"

definition prepend :: "'a \<Rightarrow> error + ('a list \<times> string) \<Rightarrow> error + ('a list \<times> string)" where
  "prepend x r = (case r of Inl e \<Rightarrow> Inl e | Inr (xs, rest) \<Rightarrow> Inr (x # xs, rest))"

text \<open>
  An escape, after its backslash: the character and the rest of the text. After
  \<^verbatim>\<open>\u\<close> and four hexadecimal digits that give a high surrogate, a second escape that
  gives a low surrogate is joined with it into one character.
\<close>

definition unicode_escape :: "string \<Rightarrow> error + (nat \<times> string)" where
  "unicode_escape s1 =
     (case decode_uXXXX (take 4 s1) of
        Inl e \<Rightarrow> Inl e
      | Inr uni \<Rightarrow>
          if high_surrogate uni \<and> take 2 (drop 4 s1) = [CHR 0x5C, CHR ''u''] then
            (case decode_uXXXX (take 4 (drop 6 s1)) of
               Inl e \<Rightarrow> Inl e
             | Inr uni2 \<Rightarrow>
                 if low_surrogate uni2 then Inr (join_pair uni uni2, drop 10 s1)
                 else Inr (uni, drop 4 s1))
          else Inr (uni, drop 4 s1))"

definition scan_escape :: "string \<Rightarrow> error + (nat \<times> string)" where
  "scan_escape s =
     (case s of
        [] \<Rightarrow> Inl JSONDecodeError
      | esc # s1 \<Rightarrow>
          if esc = CHR ''u'' then unicode_escape s1
          else (case BACKSLASH esc of None \<Rightarrow> Inl JSONDecodeError | Some ch \<Rightarrow> Inr (ch, s1)))"

function scanstring :: "string \<Rightarrow> error + (str \<times> string)" where
  "scanstring [] = Inl JSONDecodeError"
| "scanstring (c # s) =
     (if c = CHR 0x22 then Inr ([], s)
      else if c = CHR 0x5C then
        (case scan_escape s of
           Inl e \<Rightarrow> Inl e
         | Inr (ch, rest) \<Rightarrow> prepend ch (scanstring rest))
      else if (of_char c :: nat) < 32 then Inl JSONDecodeError
      else prepend (of_char c) (scanstring s))"
  by pat_completeness auto
termination
proof (relation "measure length")
  show "wf (measure length)" by simp
next
  fix c :: char and s x2 ch rest
  assume a: "scan_escape s = Inr x2" "(ch, rest) = x2"
  have "length rest \<le> length s"
    using a
    by (auto simp: scan_escape_def unicode_escape_def split: list.splits if_splits sum.splits option.splits)
  then show "(rest, c # s) \<in> measure length" by simp
next
  fix c :: char and s
  show "(s, c # s) \<in> measure length" by simp
qed

text \<open>
  The loop of \<^verbatim>\<open>JSONArray\<close>, at the start of an item: the item, white space, then
  \<^verbatim>\<open>]\<close> or a comma, white space and the next item.
\<close>

definition json_ws :: "char \<Rightarrow> bool" where
  "json_ws c \<longleftrightarrow> c = CHR '' '' \<or> c = CHR 0x09 \<or> c = CHR 0x0A \<or> c = CHR 0x0D"

definition skip_ws :: "string \<Rightarrow> string" where
  "skip_ws s = dropWhile json_ws s"

function JSONArray_items :: "string \<Rightarrow> error + (str list \<times> string)" where
  "JSONArray_items s =
     (case s of
        [] \<Rightarrow> Inl JSONDecodeError
      | c # s1 \<Rightarrow>
          if c = CHR 0x22 then
            (case scanstring s1 of
               Inl e \<Rightarrow> Inl e
             | Inr (v, s2) \<Rightarrow>
                 (case skip_ws s2 of
                    [] \<Rightarrow> Inl JSONDecodeError
                  | d # s3 \<Rightarrow>
                      if d = CHR '']'' then Inr ([v], s3)
                      else if d = CHR '','' then prepend v (JSONArray_items (skip_ws s3))
                      else Inl JSONDecodeError))
          else if value_start c then Inl Unmodelled
          else Inl JSONDecodeError)"
  by pat_completeness auto
termination
proof (relation "measure length")
  show "wf (measure length)" by simp
next
  fix s :: string and c s1 x2 v s2 d s3
  assume a: "s = c # s1" "scanstring s1 = Inr x2" "(v, s2) = x2" "skip_ws s2 = d # s3"
  have esc: "\<And>t ch r. scan_escape t = Inr (ch, r) \<Longrightarrow> length r \<le> length t"
    by (auto simp: scan_escape_def unicode_escape_def
        split: list.splits if_splits sum.splits option.splits)
  have scan: "\<And>t w r. scanstring t = Inr (w, r) \<Longrightarrow> length r \<le> length t"
  proof -
    fix t w r
    show "scanstring t = Inr (w, r) \<Longrightarrow> length r \<le> length t"
    proof (induction t arbitrary: w r rule: scanstring.induct)
      case 1
      then show ?case by simp
    next
      case (2 c s)
      show ?case
      proof (cases "c = CHR 0x22")
        case True
        with "2.prems" show ?thesis by simp
      next
        case nq: False
        show ?thesis
        proof (cases "c = CHR 0x5C")
          case True
          with nq "2.prems" obtain ch rest w' where
            e: "scan_escape s = Inr (ch, rest)" and r: "scanstring rest = Inr (w', r)"
            by (auto simp: prepend_def split: sum.splits)
          from "2.IH"(1) [OF nq True e refl r] esc [OF e] show ?thesis by simp
        next
          case False
          with nq "2.prems" obtain w' where r: "scanstring s = Inr (w', r)"
            by (auto simp: prepend_def split: sum.splits if_splits)
          with nq False "2.prems" have "\<not> (of_char c :: nat) < 32"
            by (auto split: if_splits)
          from "2.IH"(2) [OF nq False this r] show ?thesis by simp
        qed
      qed
    qed
  qed
  have "length s2 \<le> length s1" using scan a by metis
  moreover have "length (d # s3) \<le> length s2"
    using a(4) [symmetric] by (simp add: skip_ws_def length_dropWhile_le)
  moreover have "length (skip_ws s3) \<le> length s3"
    by (simp add: skip_ws_def length_dropWhile_le)
  ultimately show "(skip_ws s3, s) \<in> measure length" using a(1) by simp
qed

declare JSONArray_items.simps [simp del]

definition JSONArray :: "string \<Rightarrow> error + (str list \<times> string)" where
  "JSONArray s =
     (case skip_ws s of
        [] \<Rightarrow> Inl JSONDecodeError
      | c # s1 \<Rightarrow> if c = CHR '']'' then Inr ([], s1) else JSONArray_items (c # s1))"

definition json_loads :: "string \<Rightarrow> error + str list" where
  "json_loads s =
     (case skip_ws s of
        [] \<Rightarrow> Inl JSONDecodeError
      | c # s1 \<Rightarrow>
          if c = CHR ''['' then
            (case JSONArray s1 of
               Inl e \<Rightarrow> Inl e
             | Inr (vs, rest) \<Rightarrow> if skip_ws rest = [] then Inr vs else Inl JSONDecodeError)
          else if value_start c then Inl Unmodelled
          else Inl JSONDecodeError)"

subsection \<open>Rows and entries\<close>

text \<open>The dataclass \<^verbatim>\<open>JournalEntry\<close>, and \<^verbatim>\<open>row_to_entry\<close>, which decodes the four list columns.\<close>

record JournalEntry =
  entry_id :: int
  entry_date :: string
  entry_title :: string
  entry_body :: string
  entry_tags :: "str list"
  entry_mood :: string
  entry_focus_hours :: real
  entry_accomplishments :: "str list"
  entry_blockers :: "str list"
  entry_tomorrow :: "str list"
  entry_created_at :: string

definition row_to_entry :: "row \<Rightarrow> error + JournalEntry" where
  "row_to_entry d =
     (case json_loads (col_tags_json d) of Inl e \<Rightarrow> Inl e | Inr tags \<Rightarrow>
      case json_loads (col_accomplishments d) of Inl e \<Rightarrow> Inl e | Inr accomplishments \<Rightarrow>
      case json_loads (col_blockers d) of Inl e \<Rightarrow> Inl e | Inr blockers \<Rightarrow>
      case json_loads (col_tomorrow d) of Inl e \<Rightarrow> Inl e | Inr tomorrow \<Rightarrow>
        Inr \<lparr>entry_id = col_id d, entry_date = col_date d, entry_title = col_title d,
             entry_body = col_body d, entry_tags = tags, entry_mood = col_mood d,
             entry_focus_hours = col_focus_hours d, entry_accomplishments = accomplishments,
             entry_blockers = blockers, entry_tomorrow = tomorrow,
             entry_created_at = col_created_at d\<rparr>)"

text \<open>A loop that calls \<open>f\<close> on each element in turn: the first exception ends it.\<close>

fun for_each :: "('a \<Rightarrow> error + 'b) \<Rightarrow> 'a list \<Rightarrow> error + 'b list" where
  "for_each f [] = Inr []"
| "for_each f (x # xs) =
     (case f x of
        Inl e \<Rightarrow> Inl e
      | Inr y \<Rightarrow> (case for_each f xs of Inl e \<Rightarrow> Inl e | Inr ys \<Rightarrow> Inr (y # ys)))"

subsection \<open>Inserting\<close>

text \<open>
  The \<^verbatim>\<open>INSERT\<close> of \<^verbatim>\<open>insert_entry\<close>. The new id is one more than the largest id the
  table has ever held (\<^verbatim>\<open>AUTOINCREMENT\<close>); when that would pass the largest 64-bit row
  id, SQLite refuses the insert. The trigger \<^verbatim>\<open>entries_ai\<close>, when the schema has it,
  adds the document to the index within the same statement; a statement that fails
  changes nothing. \<open>now\<close> is \<^verbatim>\<open>datetime.now().isoformat()\<close>. \<open>int64\<close> are the
  integers that SQLite takes as a parameter: for another one \<^verbatim>\<open>execute\<close> raises
  \<^verbatim>\<open>OverflowError\<close>.
\<close>

definition MAX_ROWID :: int where
  "MAX_ROWID = 9223372036854775807"

definition int64 :: "int \<Rightarrow> bool" where
  "int64 i \<longleftrightarrow> - MAX_ROWID - 1 \<le> i \<and> i \<le> MAX_ROWID"

definition next_rowid :: "entries_table \<Rightarrow> int" where
  "next_rowid t = foldr max (map col_id (rows t)) (seq t) + 1"

definition doc_of :: "row \<Rightarrow> fts_doc" where
  "doc_of new = \<lparr>rowid = col_id new, fts_title = col_title new, fts_body = col_body new,
     fts_tags_json = col_tags_json new\<rparr>"

definition insert_entry ::
  "store \<Rightarrow> string \<Rightarrow> string \<Rightarrow> string \<Rightarrow> str list \<Rightarrow> string \<Rightarrow> real \<Rightarrow>
   str list \<Rightarrow> str list \<Rightarrow> str list \<Rightarrow> string \<Rightarrow> error + (store \<times> int)" where
  "insert_entry db date_str title body tags mood focus_hours accomplishments blockers tomorrow now =
     (case entries db of
        None \<Rightarrow> Inl OperationalError
      | Some t \<Rightarrow>
          if next_rowid t > MAX_ROWID then Inl OperationalError
          else
            let new = \<lparr>col_id = next_rowid t, col_date = date_str, col_title = title,
                       col_body = body, col_tags_json = json_dumps tags, col_mood = mood,
                       col_focus_hours = focus_hours,
                       col_accomplishments = json_dumps accomplishments,
                       col_blockers = json_dumps blockers,
                       col_tomorrow = json_dumps tomorrow,
                       col_created_at = now\<rparr>;
                db' = db\<lparr>entries := Some \<lparr>seq = col_id new, rows = rows t @ [new]\<rparr>\<rparr>
            in if entries_ai db then
                 (case entries_fts db of
                    None \<Rightarrow> Inl OperationalError
                  | Some docs \<Rightarrow>
                      Inr (db'\<lparr>entries_fts := Some (docs @ [doc_of new])\<rparr>, col_id new))
               else Inr (db', col_id new))"

text \<open>
  The stores the program produces: a new file, opened by \<^verbatim>\<open>get_db\<close> any number of
  times, with entries inserted through \<^verbatim>\<open>insert_entry\<close> on an opened store.
\<close>

inductive reachable :: "store \<Rightarrow> bool" where
  reachable_new: "reachable new_file"
| reachable_get_db: "reachable s \<Longrightarrow> reachable (get_db s)"
| reachable_insert:
    "reachable s \<Longrightarrow>
     insert_entry (get_db s) date_str title body tags mood focus_hours
       accomplishments blockers tomorrow now = Inr (s', eid) \<Longrightarrow>
     reachable s'"

subsection \<open>Dates\<close>

text \<open>
  A \<^verbatim>\<open>datetime.date\<close> is modelled by its proleptic Gregorian ordinal
  (\<^verbatim>\<open>date.toordinal()\<close>: 1 is 0001-01-01, a Monday; 3652059 is 9999-12-31).
  \<open>ord2ymd\<close> and \<open>isoformat\<close> follow Python's \<^verbatim>\<open>_ord2ymd\<close> and \<^verbatim>\<open>date.isoformat\<close>;
  \<open>date_sub_days d k\<close> is \<^verbatim>\<open>d - timedelta(days=k)\<close>, which raises \<^verbatim>\<open>OverflowError\<close>
  outside the range of \<^verbatim>\<open>timedelta\<close> or of \<^verbatim>\<open>date\<close>.
\<close>

type_synonym pydate = int

definition MAXORDINAL :: int where
  "MAXORDINAL = 3652059"

definition valid_date :: "pydate \<Rightarrow> bool" where
  "valid_date d \<longleftrightarrow> 1 \<le> d \<and> d \<le> MAXORDINAL"

definition DAYS_IN_MONTH :: "int list" where
  "DAYS_IN_MONTH = [-1, 31, 28, 31, 30, 31, 30, 31, 31, 30, 31, 30, 31]"

definition DAYS_BEFORE_MONTH :: "int list" where
  "DAYS_BEFORE_MONTH = [-1, 0, 31, 59, 90, 120, 151, 181, 212, 243, 273, 304, 334]"

definition ord2ymd :: "int \<Rightarrow> int \<times> int \<times> int" where
  "ord2ymd ordinal =
     (let n = ordinal - 1;
          n400 = n div 146097; n = n mod 146097;
          year = n400 * 400 + 1;
          n100 = n div 36524; n = n mod 36524;
          n4 = n div 1461; n = n mod 1461;
          n1 = n div 365; n = n mod 365;
          year = year + n100 * 100 + n4 * 4 + n1
      in if n1 = 4 \<or> n100 = 4 then (year - 1, 12, 31)
         else
           let leapyear = (n1 = 3 \<and> (n4 \<noteq> 24 \<or> n100 = 3));
               month = (n + 50) div 32;
               preceding = DAYS_BEFORE_MONTH ! nat month + (if month > 2 \<and> leapyear then 1 else 0)
           in if preceding > n then
                let month = month - 1;
                    preceding = preceding -
                      (DAYS_IN_MONTH ! nat month + (if month = 2 \<and> leapyear then 1 else 0))
                in (year, month, n - preceding + 1)
              else (year, month, n - preceding + 1))"

function digits10 :: "nat \<Rightarrow> string" where
  "digits10 n =
     (if n < 10 then [''0123456789'' ! n]
      else digits10 (n div 10) @ [''0123456789'' ! (n mod 10)])"
  by pat_completeness auto
termination
  by (relation "measure id") auto

declare digits10.simps [simp del]

text \<open>The format \<^verbatim>\<open>%0wd\<close> of a number that is not negative.\<close>

definition zero_padded :: "nat \<Rightarrow> int \<Rightarrow> string" where
  "zero_padded w n =
     (let ds = digits10 (nat n) in replicate (w - length ds) (CHR ''0'') @ ds)"

definition isoformat :: "pydate \<Rightarrow> string" where
  "isoformat d =
     (case ord2ymd d of
        (year, month, day) \<Rightarrow>
          zero_padded 4 year @ ''-'' @ zero_padded 2 month @ ''-'' @ zero_padded 2 day)"

definition weekday :: "pydate \<Rightarrow> int" where
  "weekday d = (d + 6) mod 7"

definition date_sub_days :: "pydate \<Rightarrow> int \<Rightarrow> error + pydate" where
  "date_sub_days d k =
     (if \<bar>k\<bar> > 999999999 then Inl OverflowError
      else if 0 < d - k \<and> d - k \<le> MAXORDINAL then Inr (d - k)
      else Inl OverflowError)"

subsection \<open>Queries\<close>

text \<open>
  \<^verbatim>\<open>ORDER BY\<close> a text column, ascending and descending. SQL leaves the order of rows
  with equal keys open; here they keep the order of the table.
\<close>

definition order_by :: "('a \<Rightarrow> string) \<Rightarrow> 'a list \<Rightarrow> 'a list" where
  "order_by key xs = sort_key key xs"

definition order_by_desc :: "('a \<Rightarrow> string) \<Rightarrow> 'a list \<Rightarrow> 'a list" where
  "order_by_desc key xs = rev (sort_key key (rev xs))"

subsection \<open>Commands\<close>

text \<open>
  Every command opens the store with \<^verbatim>\<open>get_db\<close> first. A command returns the store it
  leaves behind and its outcome: the exception that left it, or the values it reports.

  \<^verbatim>\<open>str.split(sep)\<close> for a separator of one character, \<^verbatim>\<open>str.strip()\<close> (the white space
  below code point 256) and \<^verbatim>\<open>str.lstrip(chars)\<close>.
\<close>

fun str_split :: "char \<Rightarrow> string \<Rightarrow> string list" where
  "str_split sep [] = [[]]"
| "str_split sep (c # s) =
     (if c = sep then [] # str_split sep s
      else (case str_split sep s of [] \<Rightarrow> [[c]] | x # xs \<Rightarrow> (c # x) # xs))"

definition isspace :: "char \<Rightarrow> bool" where
  "isspace c \<longleftrightarrow>
     (let n = (of_char c :: nat) in
      (9 \<le> n \<and> n \<le> 13) \<or> (28 \<le> n \<and> n \<le> 32) \<or> n = 133 \<or> n = 160)"

definition str_strip :: "string \<Rightarrow> string" where
  "str_strip s = rev (dropWhile isspace (rev (dropWhile isspace s)))"

definition str_lstrip :: "string \<Rightarrow> string \<Rightarrow> string" where
  "str_lstrip chars s = dropWhile (\<lambda>c. c \<in> set chars) s"

record add_args =
  arg_title :: string
  arg_body :: string
  arg_tags :: string
  arg_mood :: string
  arg_hours :: real
  arg_accomplishments :: string
  arg_blockers :: string
  arg_tomorrow :: string

text \<open>
  \<^verbatim>\<open>cmd_add\<close>: \<open>today\<close> is \<^verbatim>\<open>date.today()\<close>, \<open>now\<close> is \<^verbatim>\<open>datetime.now().isoformat()\<close>.
  The items that it cuts out of its arguments are strings of code points below 256,
  as the arguments are.
\<close>

definition cmd_add :: "pydate \<Rightarrow> string \<Rightarrow> add_args \<Rightarrow> store \<Rightarrow> store \<times> (error + int)" where
  "cmd_add today_date now args s =
     (let db = get_db s;
          today = isoformat today_date;
          tags = (if arg_tags args \<noteq> []
                  then map (\<lambda>t. U (str_lstrip ''#'' (str_strip t)))
                         (str_split (CHR '','') (arg_tags args))
                  else []);
          accoms = (if arg_accomplishments args \<noteq> []
                    then map (\<lambda>a. U (str_strip a)) (str_split (CHR ''|'') (arg_accomplishments args))
                    else []);
          blockers = (if arg_blockers args \<noteq> []
                      then map (\<lambda>b. U (str_strip b)) (str_split (CHR ''|'') (arg_blockers args))
                      else []);
          tmrw = (if arg_tomorrow args \<noteq> []
                  then map (\<lambda>t. U (str_strip t)) (str_split (CHR ''|'') (arg_tomorrow args))
                  else [])
      in if arg_mood args \<notin> set MOODS then (db, Inl (SystemExit 1))
         else
           (case insert_entry db today (arg_title args)
                   (if arg_body args \<noteq> [] then arg_body args else [])
                   tags (arg_mood args) (arg_hours args) accoms blockers tmrw now of
              Inl e \<Rightarrow> (db, Inl e)
            | Inr (db', eid) \<Rightarrow> (db', Inr eid)))"

text \<open>
  \<^verbatim>\<open>cmd_show\<close>: the entry with the id, or \<open>None\<close> after the report that there is none.
  An id that is no 64-bit integer cannot be a parameter of the query.
\<close>

definition cmd_show :: "int \<Rightarrow> store \<Rightarrow> store \<times> (error + JournalEntry option)" where
  "cmd_show arg_id s =
     (let db = get_db s in
      (db,
       if \<not> int64 arg_id then Inl OverflowError
       else
         (case find (\<lambda>r. col_id r = arg_id) (all_rows db) of
            None \<Rightarrow> Inr None
          | Some row \<Rightarrow> (case row_to_entry row of Inl e \<Rightarrow> Inl e | Inr e \<Rightarrow> Inr (Some e)))))"

text \<open>
  The full-text index is SQLite's FTS5, which is no part of the program: what it does
  with a query is a parameter. \<open>fts5 query = None\<close> when FTS5 rejects the text of the
  query (\<^verbatim>\<open>sqlite3.OperationalError\<close>); otherwise it is the set of documents the query
  matches.

  \<^verbatim>\<open>cmd_search\<close>: the join of the table with the matching documents, latest date
  first, twenty rows at most, each turned into an entry for printing.
\<close>

type_synonym fts5 = "string \<Rightarrow> (fts_doc \<Rightarrow> bool) option"

definition cmd_search :: "fts5 \<Rightarrow> string \<Rightarrow> store \<Rightarrow> store \<times> (error + JournalEntry list)" where
  "cmd_search MATCH query s =
     (let db = get_db s in
      (db,
       case MATCH query of
         None \<Rightarrow> Inl OperationalError
       | Some matches \<Rightarrow>
           for_each row_to_entry
             (take 20 (order_by_desc col_date
                [e. e \<leftarrow> all_rows db, f \<leftarrow> all_docs db, col_id e = rowid f \<and> matches f]))))"

text \<open>
  \<^verbatim>\<open>cmd_streak\<close>, from the list \<open>dates\<close> on: the distinct dates of the entries, latest
  first, as \<^verbatim>\<open>date\<close> values. (Reading them from the store with \<^verbatim>\<open>date.fromisoformat\<close>
  is not modelled.) \<open>streak_loop\<close> is the \<^verbatim>\<open>for\<close> loop: \<open>i\<close> is the loop variable and
  \<open>streak\<close> the counter. The outcome is \<open>None\<close> after the report that there are no
  entries, or the streak and the number of days with entries.
\<close>

function streak_loop :: "pydate list \<Rightarrow> nat \<Rightarrow> nat \<Rightarrow> nat" where
  "streak_loop dates i streak =
     (if i < length dates - 1 then
        (if dates ! i - dates ! (i + 1) = 1 then streak_loop dates (i + 1) (streak + 1)
         else streak)
      else streak)"
  by pat_completeness auto
termination
  by (relation "measure (\<lambda>(dates, i, streak). length dates - i)") auto

declare streak_loop.simps [simp del]

definition cmd_streak :: "pydate list \<Rightarrow> (nat \<times> nat) option" where
  "cmd_streak dates =
     (if dates = [] then None else Some (streak_loop dates 0 1, length dates))"

text \<open>
  \<^verbatim>\<open>cmd_mood_trend\<close>: \<open>days\<close> is \<^verbatim>\<open>args.days\<close>. The outcome is \<open>None\<close> after the report
  that there is no data, or the total and the rows \<^verbatim>\<open>(mood, cnt)\<close> in the order of
  \<^verbatim>\<open>MOODS\<close>. \<open>days_or_30\<close> is \<^verbatim>\<open>args.days or 30\<close>; \<open>index_of\<close> is \<^verbatim>\<open>tuple.index\<close>;
  \<^verbatim>\<open>sorted\<close> computes the key of every row before it compares any.
\<close>

fun index_of :: "'a list \<Rightarrow> 'a \<Rightarrow> error + nat" where
  "index_of [] x = Inl ValueError"
| "index_of (y # ys) x =
     (if y = x then Inr 0
      else (case index_of ys x of Inl e \<Rightarrow> Inl e | Inr n \<Rightarrow> Inr (Suc n)))"

definition group_by_mood :: "row list \<Rightarrow> (string \<times> nat) list" where
  "group_by_mood rs =
     map (\<lambda>m. (m, length (filter (\<lambda>r. col_mood r = m) rs))) (sort (remdups (map col_mood rs)))"

definition sorted_by_key :: "('a \<Rightarrow> error + nat) \<Rightarrow> 'a list \<Rightarrow> error + 'a list" where
  "sorted_by_key key xs =
     (case for_each key xs of
        Inl e \<Rightarrow> Inl e
      | Inr keys \<Rightarrow> Inr (map snd (sort_key fst (zip keys xs))))"

definition days_or_30 :: "int option \<Rightarrow> int" where
  "days_or_30 x = (case x of None \<Rightarrow> 30 | Some d \<Rightarrow> if d = 0 then 30 else d)"

definition cmd_mood_trend ::
  "int option \<Rightarrow> pydate \<Rightarrow> store \<Rightarrow> store \<times> (error + (nat \<times> (string \<times> nat) list) option)" where
  "cmd_mood_trend arg_days today s =
     (let db = get_db s;
          days = days_or_30 arg_days
      in (db,
          case date_sub_days today days of
            Inl e \<Rightarrow> Inl e
          | Inr since_date \<Rightarrow>
              let since = isoformat since_date;
                  rows = group_by_mood (filter (\<lambda>r. col_date r \<ge> since) (all_rows db))
              in if rows = [] then Inr None
                 else
                   let total = sum_list (map snd rows)
                   in (case sorted_by_key (\<lambda>r. index_of MOODS (fst r)) rows of
                         Inl e \<Rightarrow> Inl e
                       | Inr sorted_rows \<Rightarrow> Inr (Some (total, sorted_rows)))))"

text \<open>
  \<^verbatim>\<open>cmd_weekly\<close>: the number of entries, the total of the focus hours and the list of
  accomplishments that it prints. The total is Python's \<^verbatim>\<open>sum()\<close> of the focus hours of
  the rows, in their order: an addition of floats, which this model does not define.
  It is the parameter \<open>py_sum\<close>, from the list of the floats to their total.
\<close>

type_synonym float_sum = "real list \<Rightarrow> real"

definition cmd_weekly ::
  "float_sum \<Rightarrow> pydate \<Rightarrow> store \<Rightarrow> store \<times> (error + (nat \<times> real \<times> str list))" where
  "cmd_weekly py_sum today s =
     (let db = get_db s in
      (db,
       case date_sub_days today (weekday today) of
         Inl e \<Rightarrow> Inl e
       | Inr start \<Rightarrow>
           let rows = order_by col_date
                        (filter (\<lambda>r. col_date r \<ge> isoformat start) (all_rows db));
               total_hours = py_sum (map col_focus_hours rows)
           in (case for_each (\<lambda>r. json_loads (col_accomplishments r)) rows of
                 Inl e \<Rightarrow> Inl e
               | Inr all_accoms \<Rightarrow> Inr (length rows, total_hours, concat all_accoms))))"

text \<open>
  \<^verbatim>\<open>cmd_export_md\<close>: \<open>None\<close> after the report that the range has no entries, or the name
  of the file and the entries written to it, in their order. \<^verbatim>\<open>x or default\<close> takes the
  default for \<^verbatim>\<open>None\<close> and for the empty string. The text of the export is made of
  the two ends of the range and of the entries. Opening the file and writing the text
  are the file system's: \<open>WRITE fname (start, end, es)\<close> is \<open>None\<close> when the text for
  \<open>start\<close>, \<open>end\<close> and the entries \<open>es\<close> is written to the file \<open>fname\<close>, or the
  exception that \<^verbatim>\<open>open\<close> or \<^verbatim>\<open>write\<close> raises (a \<^verbatim>\<open>FileNotFoundError\<close>, which is an
  \<^verbatim>\<open>OSError\<close>, when the name has a directory that does not exist). The file is opened
  after every row has been read.
\<close>

type_synonym file_system =
  "string \<Rightarrow> string \<times> string \<times> JournalEntry list \<Rightarrow> error option"

record export_args =
  arg_start :: "string option"
  arg_end :: "string option"

definition or_default :: "string option \<Rightarrow> string \<Rightarrow> string" where
  "or_default x d = (case x of None \<Rightarrow> d | Some v \<Rightarrow> if v = [] then d else v)"

definition cmd_export_md ::
  "file_system \<Rightarrow> export_args \<Rightarrow> pydate \<Rightarrow> store \<Rightarrow>
   store \<times> (error + (string \<times> JournalEntry list) option)" where
  "cmd_export_md WRITE args today s =
     (let db = get_db s;
          start = or_default (arg_start args) ''2020-01-01'';
          end = or_default (arg_end args) (isoformat today);
          rows = order_by col_date
                   (filter (\<lambda>r. start \<le> col_date r \<and> col_date r \<le> end) (all_rows db))
      in (db,
          if rows = [] then Inr None
          else
            (case for_each row_to_entry rows of
               Inl e \<Rightarrow> Inl e
             | Inr es \<Rightarrow>
                 let fname = ''journal_'' @ start @ ''_'' @ end @ ''.md''
                 in (case WRITE fname (start, end, es) of
                       Some e \<Rightarrow> Inl e
                     | None \<Rightarrow> Inr (Some (fname, es))))))"

subsection \<open>Notions of the specification\<close>

text \<open>
  The id that the next insert gives on the opened store, and whether the table can
  take that row: the id must be a 64-bit row id. (On a new file it is 1; a table
  would have to hold the largest row id to refuse.) \<open>stored_row\<close> is the row that
  \<^verbatim>\<open>insert_entry\<close> writes for an id and its arguments.
\<close>

definition next_id :: "store \<Rightarrow> int" where
  "next_id s = next_rowid (case entries s of None \<Rightarrow> \<lparr>seq = 0, rows = []\<rparr> | Some t \<Rightarrow> t)"

definition has_room :: "store \<Rightarrow> bool" where
  "has_room s \<longleftrightarrow> next_id s \<le> MAX_ROWID"

definition stored_row ::
  "int \<Rightarrow> string \<Rightarrow> string \<Rightarrow> string \<Rightarrow> str list \<Rightarrow> string \<Rightarrow> real \<Rightarrow>
   str list \<Rightarrow> str list \<Rightarrow> str list \<Rightarrow> string \<Rightarrow> row" where
  "stored_row eid date_str title body tags mood focus_hours accomplishments blockers tomorrow now =
     \<lparr>col_id = eid, col_date = date_str, col_title = title, col_body = body,
      col_tags_json = json_dumps tags, col_mood = mood, col_focus_hours = focus_hours,
      col_accomplishments = json_dumps accomplishments, col_blockers = json_dumps blockers,
      col_tomorrow = json_dumps tomorrow, col_created_at = now\<rparr>"

text \<open>
  What comes back for a list that went through \<^verbatim>\<open>json.dumps\<close> and \<^verbatim>\<open>json.loads\<close>:
  \<open>join_surrogates\<close> puts one character in the place of every high surrogate that a
  low surrogate follows, from left to right; \<open>has_surrogate_pair\<close> says that a string
  has such a pair. \<open>json_char\<close> is the character that the escapes of one character
  stand for: itself, for every code point of a Python string.
\<close>

fun join_surrogates :: "str \<Rightarrow> str" where
  "join_surrogates (a # b # s) =
     (if high_surrogate a \<and> low_surrogate b then join_pair a b # join_surrogates s
      else a # join_surrogates (b # s))"
| "join_surrogates s = s"

fun has_surrogate_pair :: "str \<Rightarrow> bool" where
  "has_surrogate_pair (a # b # s) \<longleftrightarrow>
     high_surrogate a \<and> low_surrogate b \<or> has_surrogate_pair (b # s)"
| "has_surrogate_pair s \<longleftrightarrow> False"

definition json_char :: "nat \<Rightarrow> nat" where
  "json_char n =
     (if n < 0x10000 then n
      else join_pair (0xD800 + (n - 0x10000) div 1024 mod 1024) (0xDC00 + (n - 0x10000) mod 1024))"

definition read_back :: "str list \<Rightarrow> str list" where
  "read_back xs = map (\<lambda>s. join_surrogates (map json_char s)) xs"

text \<open>
  The specification's streak: the dates of a list are consecutive when each is exactly
  one day before the one in front of it.
\<close>

fun consecutive :: "pydate list \<Rightarrow> bool" where
  "consecutive (a # b # ds) \<longleftrightarrow> a - b = 1 \<and> consecutive (b # ds)"
| "consecutive ds \<longleftrightarrow> True"

subsection \<open>Examples\<close>

text \<open>
  A journal of three entries, of Tuesday 2019-12-31, Monday 2024-01-15 and Wednesday
  2024-01-17 (ordinal 738902), written through \<^verbatim>\<open>insert_entry\<close> on a new file.
\<close>

definition journal1 :: store where
  "journal1 = fst (projr (insert_entry (get_db new_file) ''2019-12-31'' ''Year end'' ''wrap up''
     [U ''retro''] ''rough'' 1 [U ''Closed the books''] [] [] ''2019-12-31T18:00:00''))"

definition journal2 :: store where
  "journal2 = fst (projr (insert_entry (get_db journal1) ''2024-01-15'' ''Shipping OAuth feature''
     ''body'' [U ''python'', U ''api'', U ''python''] ''great'' 2 [U ''Ship it'', U ''Tests pass'']
     [U ''DB is slow''] [U ''Write docs'', U ''Review PR''] ''2024-01-15T17:30:00''))"

definition journal3 :: store where
  "journal3 = fst (projr (insert_entry (get_db journal2) ''2024-01-17'' ''Nothing special''
     ''OAuth follow up'' [] ''ok'' 3 [U ''Review PR''] [] [] ''2024-01-17T09:00:00''))"

text \<open>
  The example journal with a fourth entry: one dated Saturday 2024-01-20, and one with
  a mood that \<^verbatim>\<open>MOODS\<close> does not have.
\<close>

definition journal_ahead :: store where
  "journal_ahead = fst (projr (insert_entry (get_db journal3) ''2024-01-20'' ''Planned''
     [] [] ''good'' 4 [U ''Future work''] [] [] ''2024-01-17T11:00:00''))"

definition journal_moody :: store where
  "journal_moody = fst (projr (insert_entry (get_db journal3) ''2024-01-17'' ''Bad day''
     [] [] ''terrible'' 1 [] [] [] ''2024-01-17T10:00:00''))"

text \<open>
  A file system for the examples: a directory without subdirectories, where every
  file can be written but one whose name has a \<^verbatim>\<open>/\<close>.
\<close>

definition flat_directory :: file_system where
  "flat_directory fname text = (if CHR ''/'' \<in> set fname then Some OSError else None)"

text \<open>
  An index for the examples: it rejects the reserved words of FTS5 standing alone, as
  FTS5 does, and otherwise matches the documents that have the query as a word of the
  title or of the body.
\<close>

definition example_fts5 :: fts5 where
  "example_fts5 query =
     (if query \<in> {''AND'', ''OR'', ''NOT''} then None
      else Some (\<lambda>f. query \<in> set (str_split (CHR '' '') (fts_title f))
                     \<or> query \<in> set (str_split (CHR '' '') (fts_body f))))"

section \<open>JSON: reading back what was written\<close>

lemma hexval_hexdigit: "k < 16 \<Longrightarrow> hexval (hexdigit k) = Some k"
proof -
  assume "k < 16"
  then have "k = 0 \<or> k = 1 \<or> k = 2 \<or> k = 3 \<or> k = 4 \<or> k = 5 \<or> k = 6 \<or> k = 7 \<or> k = 8
     \<or> k = 9 \<or> k = 10 \<or> k = 11 \<or> k = 12 \<or> k = 13 \<or> k = 14 \<or> k = 15" by arith
  then show ?thesis
    by (elim disjE) (simp_all add: hexval_def hexdigit_def)
qed

lemma length_hex4 [simp]: "length (hex4 n) = 4"
  by (simp add: hex4_def)

lemma map_hexval_hex4:
  "map hexval (hex4 n) = [Some (n div 4096 mod 16), Some (n div 256 mod 16),
     Some (n div 16 mod 16), Some (n mod 16)]"
proof -
  have b: "n div 4096 mod 16 < 16" "n div 256 mod 16 < 16" "n div 16 mod 16 < 16" "n mod 16 < 16"
    by simp_all
  show ?thesis
    unfolding hex4_def
    by (simp only: list.map hexval_hexdigit [OF b(1)] hexval_hexdigit [OF b(2)]
        hexval_hexdigit [OF b(3)] hexval_hexdigit [OF b(4)])
qed

lemma hex_digits_value:
  assumes "(n::nat) < 65536"
  shows "((n div 4096 mod 16 * 16 + n div 256 mod 16) * 16 + n div 16 mod 16) * 16 + n mod 16 = n"
proof -
  define q1 where "q1 = n div 16"
  define q2 where "q2 = n div 256"
  define q3 where "q3 = n div 4096"
  have d2: "q1 div 16 = q2" by (simp add: q1_def q2_def div_mult2_eq)
  have d3: "q2 div 16 = q3" by (simp add: q2_def q3_def div_mult2_eq)
  have "q3 < 16" using assms by (simp add: q3_def less_mult_imp_div_less)
  then have m3: "q3 mod 16 = q3" by simp
  have e0: "q1 * 16 + n mod 16 = n" unfolding q1_def by (rule div_mult_mod_eq)
  have e1: "q2 * 16 + q1 mod 16 = q1" unfolding d2 [symmetric] by (rule div_mult_mod_eq)
  have e2: "q3 * 16 + q2 mod 16 = q2" unfolding d3 [symmetric] by (rule div_mult_mod_eq)
  have "((q3 mod 16 * 16 + q2 mod 16) * 16 + q1 mod 16) * 16 + n mod 16 = n"
    unfolding m3 e2 e1 e0 ..
  then show ?thesis by (simp only: q1_def q2_def q3_def)
qed

lemma decode_hex4:
  assumes "n < 65536"
  shows "decode_uXXXX (hex4 n) = Inr n"
proof -
  have "decode_uXXXX (hex4 n) =
      Inr (((n div 4096 mod 16 * 16 + n div 256 mod 16) * 16 + n div 16 mod 16) * 16 + n mod 16)"
    unfolding decode_uXXXX_def map_hexval_hex4 by (simp only: list.case option.case)
  then show ?thesis by (simp only: hex_digits_value [OF assms])
qed

lemma json_char_valid: "n < 0x110000 \<Longrightarrow> json_char n = n"
proof -
  assume n: "n < 0x110000"
  show ?thesis
  proof (cases "n < 0x10000")
    case True
    then show ?thesis by (simp add: json_char_def)
  next
    case False
    define v where "v = n - 0x10000"
    have v: "v < 0x100000" "n = v + 0x10000" using n False by (simp_all add: v_def)
    have "v div 1024 < 1024" using v(1) by (simp add: less_mult_imp_div_less)
    then have m: "v div 1024 mod 1024 = v div 1024" by simp
    have "v div 1024 * 1024 + v mod 1024 = v" by (rule div_mult_mod_eq)
    then show ?thesis
      using False by (simp add: json_char_def join_pair_def v_def [symmetric] m v(2))
  qed
qed

lemma json_char_surrogate [simp]:
  "high_surrogate (json_char n) = high_surrogate n"
  "low_surrogate (json_char n) = low_surrogate n"
  by (auto simp: json_char_def high_surrogate_def low_surrogate_def join_pair_def)

lemma json_char_small: "n < 0x10000 \<Longrightarrow> json_char n = n"
  by (simp add: json_char_def)

text \<open>What \<^verbatim>\<open>\u\<close> and four digits give, by what follows them.\<close>

lemma unicode_escape_plain:
  assumes "n < 0x10000" "\<not> high_surrogate n"
  shows "unicode_escape (hex4 n @ r) = Inr (n, r)"
  using assms by (simp add: unicode_escape_def decode_hex4)

lemma unicode_escape_pair:
  assumes "high_surrogate hi" "low_surrogate lo"
  shows "unicode_escape (hex4 hi @ CHR 0x5C # CHR ''u'' # hex4 lo @ r) = Inr (join_pair hi lo, r)"
proof -
  have "hi < 0x10000" "lo < 0x10000"
    using assms by (simp_all add: high_surrogate_def low_surrogate_def)
  then show ?thesis
    using assms by (simp add: unicode_escape_def decode_hex4)
qed

lemma unicode_escape_high_other:
  assumes "high_surrogate hi" "x < 0x10000" "\<not> low_surrogate x"
  shows "unicode_escape (hex4 hi @ CHR 0x5C # CHR ''u'' # hex4 x @ r) =
         Inr (hi, CHR 0x5C # CHR ''u'' # hex4 x @ r)"
proof -
  have "hi < 0x10000"
    using assms by (simp_all add: high_surrogate_def)
  then show ?thesis
    using assms by (simp add: unicode_escape_def decode_hex4)
qed

lemma unicode_escape_high_alone:
  assumes "high_surrogate hi" "take 2 r \<noteq> [CHR 0x5C, CHR ''u'']"
  shows "unicode_escape (hex4 hi @ r) = Inr (hi, r)"
proof -
  have "hi < 0x10000"
    using assms by (simp_all add: high_surrogate_def)
  then show ?thesis
    using assms by (simp add: unicode_escape_def decode_hex4)
qed

lemma of_char_char_of: "n < 256 \<Longrightarrow> of_char (char_of n) = (n::nat)"
  by (simp add: of_char_of)

lemma char_of_eq_iff_small:
  assumes "(n::nat) < 256"
  shows "(char_of n = c) = (n = of_char c)"
proof
  assume "char_of n = c"
  then have "of_char (char_of n) = (of_char c :: nat)" by simp
  then show "n = of_char c" by (simp only: of_char_char_of [OF assms])
next
  assume "n = of_char c"
  then show "char_of n = c" by simp
qed

lemma scan_escape_u [simp]: "scan_escape (CHR ''u'' # s) = unicode_escape s"
  by (simp add: scan_escape_def)

lemma escape_char_high: "high_surrogate n \<Longrightarrow> escape_char n = CHR 0x5C # CHR ''u'' # hex4 n"
  by (simp add: escape_char_def high_surrogate_def)

lemma escape_char_low: "low_surrogate n \<Longrightarrow> escape_char n = CHR 0x5C # CHR ''u'' # hex4 n"
  by (simp add: escape_char_def low_surrogate_def)

text \<open>A character that is not a high surrogate is read back by itself.\<close>

lemma scanstring_short_escape:
  assumes "n = 0x5C \<or> n = 0x22 \<or> n = 0x08 \<or> n = 0x0C \<or> n = 0x0A \<or> n = 0x0D \<or> n = 0x09"
  shows "scanstring (escape_char n @ r) = prepend n (scanstring r)"
  using assms
proof (elim disjE)
  assume "n = 0x5C" then show ?thesis
    by (simp add: escape_char_def scan_escape_def BACKSLASH_def)
next
  assume "n = 0x22" then show ?thesis
    by (simp add: escape_char_def scan_escape_def BACKSLASH_def)
next
  assume "n = 0x08" then show ?thesis
    by (simp add: escape_char_def scan_escape_def BACKSLASH_def)
next
  assume "n = 0x0C" then show ?thesis
    by (simp add: escape_char_def scan_escape_def BACKSLASH_def)
next
  assume "n = 0x0A" then show ?thesis
    by (simp add: escape_char_def scan_escape_def BACKSLASH_def)
next
  assume "n = 0x0D" then show ?thesis
    by (simp add: escape_char_def scan_escape_def BACKSLASH_def)
next
  assume "n = 0x09" then show ?thesis
    by (simp add: escape_char_def scan_escape_def BACKSLASH_def)
qed

lemma scanstring_escape_char:
  assumes "\<not> high_surrogate n"
  shows "scanstring (escape_char n @ r) = prepend (json_char n) (scanstring r)"
proof (cases "n = 0x5C \<or> n = 0x22 \<or> n = 0x08 \<or> n = 0x0C \<or> n = 0x0A \<or> n = 0x0D \<or> n = 0x09")
  case True
  then have "n < 0x10000" by auto
  with scanstring_short_escape [OF True] show ?thesis by (simp add: json_char_small)
next
  case ns: False
  show ?thesis
  proof (cases "32 \<le> n \<and> n \<le> 126")
    case True
    with ns have e: "escape_char n = [char_of n]"
      by (simp add: escape_char_def)
    have small: "n < 256" using True by simp
    have q: "char_of n \<noteq> CHR 0x22" "char_of n \<noteq> CHR 0x5C"
      using ns by (simp_all add: char_of_eq_iff_small [OF small])
    have "n < 0x10000" using True by simp
    then show ?thesis
      using True by (simp add: e q of_char_char_of [OF small] json_char_small)
  next
    case nl: False
    show ?thesis
    proof (cases "n < 0x10000")
      case True
      with ns nl have e: "escape_char n = CHR 0x5C # CHR ''u'' # hex4 n"
        by (simp add: escape_char_def)
      show ?thesis
        by (simp add: e unicode_escape_plain [OF True assms] json_char_small [OF True])
    next
      case False
      define v where "v = n - 0x10000"
      define s1 where "s1 = 0xD800 + v div 1024 mod 1024"
      define s2 where "s2 = 0xDC00 + v mod 1024"
      have e: "escape_char n = CHR 0x5C # CHR ''u'' # hex4 s1 @ CHR 0x5C # CHR ''u'' # hex4 s2"
        using False ns nl by (simp add: escape_char_def Let_def v_def s1_def s2_def)
      have h: "high_surrogate s1" by (simp add: high_surrogate_def s1_def)
      have l: "low_surrogate s2" by (simp add: low_surrogate_def s2_def)
      have j: "json_char n = join_pair s1 s2"
        using False by (simp add: json_char_def v_def s1_def s2_def)
      have "scanstring (CHR 0x5C # CHR ''u'' # hex4 s1 @ CHR 0x5C # CHR ''u'' # hex4 s2 @ r) =
          prepend (join_pair s1 s2) (scanstring r)"
        by (simp add: unicode_escape_pair [OF h l])
      then show ?thesis by (simp add: e j)
    qed
  qed
qed

text \<open>A high surrogate is read back by itself unless a low surrogate follows it.\<close>

lemma scanstring_high_end:
  assumes "high_surrogate a"
  shows "scanstring (escape_char a @ CHR 0x22 # r) = Inr ([a], r)"
proof -
  have "take 2 (CHR 0x22 # r) \<noteq> [CHR 0x5C, CHR ''u'']" by simp
  from unicode_escape_high_alone [OF assms this] show ?thesis
    by (simp add: escape_char_high [OF assms] prepend_def)
qed

lemma scanstring_high_low:
  assumes "high_surrogate a" "low_surrogate b"
  shows "scanstring (escape_char a @ escape_char b @ r) = prepend (join_pair a b) (scanstring r)"
  by (simp add: escape_char_high [OF assms(1)] escape_char_low [OF assms(2)]
      unicode_escape_pair [OF assms])

lemma scanstring_high_other:
  assumes "high_surrogate a" "\<not> low_surrogate b"
  shows "scanstring (escape_char a @ escape_char b @ r) =
         prepend a (scanstring (escape_char b @ r))"
proof -
  have "unicode_escape (hex4 a @ escape_char b @ r) = Inr (a, escape_char b @ r)"
  proof (cases "b = 0x5C \<or> b = 0x22 \<or> b = 0x08 \<or> b = 0x0C \<or> b = 0x0A \<or> b = 0x0D \<or> b = 0x09")
      case True
      then have "take 2 (escape_char b @ r) \<noteq> [CHR 0x5C, CHR ''u'']"
        by (elim disjE) (simp_all add: escape_char_def)
      then show ?thesis by (rule unicode_escape_high_alone [OF assms(1)])
    next
      case ns: False
      show ?thesis
      proof (cases "32 \<le> b \<and> b \<le> 126")
        case True
        with ns have e: "escape_char b = [char_of b]"
          by (simp add: escape_char_def)
        have small: "b < 256" using True by simp
        have "char_of b \<noteq> CHR 0x5C"
          using ns by (simp add: char_of_eq_iff_small [OF small])
        then have "take 2 (escape_char b @ r) \<noteq> [CHR 0x5C, CHR ''u'']"
          by (simp add: e)
        then show ?thesis by (rule unicode_escape_high_alone [OF assms(1)])
      next
        case nl: False
        show ?thesis
        proof (cases "b < 0x10000")
          case True
          with ns nl have e: "escape_char b = CHR 0x5C # CHR ''u'' # hex4 b"
            by (simp add: escape_char_def)
          show ?thesis
            using unicode_escape_high_other [OF assms(1) True assms(2), of r] by (simp add: e)
        next
          case False
          define v where "v = b - 0x10000"
          define s1 where "s1 = 0xD800 + v div 1024 mod 1024"
          define s2 where "s2 = 0xDC00 + v mod 1024"
          have e: "escape_char b = CHR 0x5C # CHR ''u'' # hex4 s1 @ CHR 0x5C # CHR ''u'' # hex4 s2"
            using False ns nl by (simp add: escape_char_def Let_def v_def s1_def s2_def)
          have h: "s1 < 0x10000" "\<not> low_surrogate s1"
            by (simp_all add: low_surrogate_def s1_def)
          show ?thesis
            using unicode_escape_high_other [OF assms(1) h, of "CHR 0x5C # CHR ''u'' # hex4 s2 @ r"]
            by (simp add: e)
      qed
    qed
  qed
  then show ?thesis
    by (simp add: escape_char_high [OF assms(1)])
qed

lemma join_surrogates_Cons:
  "\<not> high_surrogate a \<Longrightarrow> join_surrogates (a # s) = a # join_surrogates s"
  by (cases s) simp_all

lemma scanstring_encode:
  "scanstring (concat (map escape_char s) @ CHR 0x22 # r) =
     Inr (join_surrogates (map json_char s), r)"
proof (induction s rule: induct_list012)
  case 1
  show ?case by simp
next
  case (2 a)
  show ?case
  proof (cases "high_surrogate a")
    case True
    then have "a < 0x10000" by (simp add: high_surrogate_def)
    with scanstring_high_end [OF True, of r] show ?thesis by (simp add: json_char_small)
  next
    case False
    from scanstring_escape_char [OF False, of "CHR 0x22 # r"] show ?thesis
      by (simp add: prepend_def)
  qed
next
  case (3 a b s)
  show ?case
  proof (cases "high_surrogate a")
    case False
    from scanstring_escape_char [OF False, of "concat (map escape_char (b # s)) @ CHR 0x22 # r"]
      "3.IH"(2)
    show ?thesis
      using False by (simp add: prepend_def join_surrogates_Cons del: join_surrogates.simps)
  next
    case hi: True
    then have a: "json_char a = a" by (simp add: high_surrogate_def json_char_small)
    show ?thesis
    proof (cases "low_surrogate b")
      case True
      then have b: "json_char b = b" by (simp add: low_surrogate_def json_char_small)
      from scanstring_high_low [OF hi True, of "concat (map escape_char s) @ CHR 0x22 # r"]
        "3.IH"(1)
      show ?thesis using hi True by (simp add: prepend_def a b)
    next
      case False
      from scanstring_high_other [OF hi False, of "concat (map escape_char s) @ CHR 0x22 # r"]
        "3.IH"(2)
      show ?thesis using hi False by (simp add: prepend_def a)
    qed
  qed
qed

lemma skip_ws_simps [simp]:
  "skip_ws [] = []"
  "skip_ws (CHR '' '' # s) = skip_ws s"
  "skip_ws (CHR '']'' # s) = CHR '']'' # s"
  "skip_ws (CHR '','' # s) = CHR '','' # s"
  "skip_ws (CHR ''['' # s) = CHR ''['' # s"
  "skip_ws (CHR 0x22 # s) = CHR 0x22 # s"
  by (simp_all add: skip_ws_def json_ws_def)

lemma join_encode_Cons:
  "join '', '' (map encode_basestring_ascii (y # ys)) @ r =
     CHR 0x22 # concat (map escape_char y) @ CHR 0x22 #
       (if ys = [] then r else '', '' @ join '', '' (map encode_basestring_ascii ys) @ r)"
  by (cases ys) (simp_all add: encode_basestring_ascii_def)

lemma skip_ws_join_encode:
  "ys \<noteq> [] \<Longrightarrow>
   skip_ws (join '', '' (map encode_basestring_ascii ys) @ r) =
     join '', '' (map encode_basestring_ascii ys) @ r"
  by (cases ys) (simp_all only: join_encode_Cons skip_ws_simps)

lemma JSONArray_items_join:
  "JSONArray_items (join '', '' (map encode_basestring_ascii (x # xs)) @ CHR '']'' # r)
     = Inr (map (\<lambda>s. join_surrogates (map json_char s)) (x # xs), r)"
proof (induction xs arbitrary: x)
  case Nil
  show ?case
    by (subst JSONArray_items.simps) (simp add: encode_basestring_ascii_def scanstring_encode)
next
  case (Cons y ys)
  let ?rest = "join '', '' (map encode_basestring_ascii (y # ys)) @ CHR '']'' # r"
  have "JSONArray_items (join '', '' (map encode_basestring_ascii (x # y # ys)) @ CHR '']'' # r)
      = prepend (join_surrogates (map json_char x)) (JSONArray_items (skip_ws ?rest))"
    by (subst JSONArray_items.simps, subst join_encode_Cons)
       (simp add: scanstring_encode del: join.simps list.map)
  also have "skip_ws ?rest = ?rest"
    by (rule skip_ws_join_encode) simp
  finally show ?case using Cons.IH [of y] by (simp add: prepend_def)
qed

text \<open>
  \<^verbatim>\<open>json.loads(json.dumps(xs))\<close> returns, for every list of strings: the list with the
  surrogate pairs of every string joined.
\<close>

lemma json_loads_dumps_any: "json_loads (json_dumps xs) = Inr (read_back xs)"
proof (cases xs)
  case Nil
  then show ?thesis by (simp add: json_loads_def json_dumps_def JSONArray_def read_back_def)
next
  case (Cons y ys)
  let ?body = "join '', '' (map encode_basestring_ascii (y # ys)) @ '']''"
  obtain u where u: "?body = CHR 0x22 # u"
    using join_encode_Cons [of y ys "'']''"] by blast
  have s: "skip_ws ?body = ?body"
    by (rule skip_ws_join_encode) simp
  have "JSONArray ?body = JSONArray_items ?body"
    unfolding JSONArray_def s u by simp
  also have "\<dots> = Inr (map (\<lambda>s. join_surrogates (map json_char s)) (y # ys), [])"
    by (rule JSONArray_items_join)
  finally have "JSONArray ?body = Inr (map (\<lambda>s. join_surrogates (map json_char s)) (y # ys), [])" .
  then show ?thesis
    unfolding json_loads_def json_dumps_def read_back_def Cons by simp
qed

lemma map_json_char_valid: "valid_str s \<Longrightarrow> map json_char s = s"
  by (induction s) (simp_all add: valid_str_def json_char_valid)

lemma json_loads_dumps:
  assumes "\<forall>x\<in>set xs. valid_str x"
  shows "json_loads (json_dumps xs) = Inr (map join_surrogates xs)"
proof -
  have "map (\<lambda>s. join_surrogates (map json_char s)) xs = map join_surrogates xs"
    using assms by (simp add: map_json_char_valid)
  then show ?thesis by (simp add: json_loads_dumps_any read_back_def)
qed

lemma join_surrogates_no_pair: "\<not> has_surrogate_pair s \<Longrightarrow> join_surrogates s = s"
  by (induction s rule: join_surrogates.induct) auto

lemma has_surrogate_pair_small:
  "\<forall>n\<in>set s. n < 0xD800 \<Longrightarrow> \<not> has_surrogate_pair s"
  by (induction s rule: has_surrogate_pair.induct) (auto simp: high_surrogate_def)

lemma U_small: "n \<in> set (U cs) \<Longrightarrow> n < 256"
  by (auto simp: U_def)

lemma valid_str_U [simp]: "valid_str (U cs)"
  unfolding valid_str_def list_all_iff using U_small [of _ cs] by fastforce

lemma has_surrogate_pair_U [simp]: "\<not> has_surrogate_pair (U cs)"
  using U_small [of _ cs] by (intro has_surrogate_pair_small) fastforce

lemma join_surrogates_U [simp]: "join_surrogates (U cs) = U cs"
  by (simp add: join_surrogates_no_pair)

lemma U_eq_iff [simp]: "U a = U b \<longleftrightarrow> a = b"
  unfolding U_def by (simp add: inj_map_eq_map inj_on_def)

lemma read_back_valid: "\<forall>x\<in>set xs. valid_str x \<Longrightarrow> read_back xs = map join_surrogates xs"
  by (simp add: read_back_def map_json_char_valid)

lemma read_back_no_pair:
  "\<forall>x\<in>set xs. valid_str x \<and> \<not> has_surrogate_pair x \<Longrightarrow> read_back xs = xs"
  by (simp add: read_back_def map_json_char_valid join_surrogates_no_pair map_idI)

lemma read_back_Nil [simp]: "read_back [] = []"
  by (simp add: read_back_def)

lemma read_back_U [simp]: "read_back (U cs # xs) = U cs # read_back xs"
  by (simp add: read_back_def map_json_char_valid)

section \<open>Initialisation\<close>

lemma all_rows_get_db: "all_rows (get_db s) = all_rows s"
  by (simp add: all_rows_def get_db_def split: option.splits)

lemma all_docs_get_db: "all_docs (get_db s) = all_docs s"
  by (simp add: all_docs_def get_db_def split: option.splits)

lemma get_db_get_db: "get_db (get_db s) = get_db s"
  by (simp add: get_db_def)

text \<open>
  C8. \<^verbatim>\<open>get_db\<close> (the specification's \<^verbatim>\<open>initialize()\<close>) is idempotent: opening a store
  twice leaves the same store as opening it once. It is not destructive: on any
  store, new or not, the rows and the indexed documents after it are those before it.
  Every query, which opens the store itself, gives the same store and the same outcome
  on an opened store as on the store before it was opened.
\<close>

theorem get_db_idempotent:
  "get_db (get_db s) = get_db s
   \<and> all_rows (get_db s) = all_rows s
   \<and> all_docs (get_db s) = all_docs s
   \<and> cmd_show arg_id (get_db s) = cmd_show arg_id s
   \<and> cmd_search MATCH query (get_db s) = cmd_search MATCH query s
   \<and> cmd_mood_trend arg_days today (get_db s) = cmd_mood_trend arg_days today s
   \<and> cmd_weekly py_sum today (get_db s) = cmd_weekly py_sum today s
   \<and> cmd_export_md WRITE args today (get_db s) = cmd_export_md WRITE args today s"
  by (simp add: get_db_get_db all_rows_get_db all_docs_get_db cmd_show_def cmd_search_def
      cmd_mood_trend_def cmd_weekly_def cmd_export_md_def)

theorem get_db_idempotent_new_file:
  "get_db (get_db new_file) = get_db new_file
   \<and> all_rows (get_db new_file) = []
   \<and> all_docs (get_db new_file) = []
   \<and> cmd_show 1 (get_db new_file) = (get_db new_file, Inr None)"
proof -
  have "cmd_show 1 new_file = (get_db new_file, Inr None)"
    by (simp add: cmd_show_def all_rows_def get_db_def new_file_def int64_def MAX_ROWID_def)
  moreover have "all_rows new_file = []" "all_docs new_file = []"
    by (simp_all add: all_rows_def all_docs_def new_file_def)
  ultimately show ?thesis
    using get_db_idempotent [of new_file 1] by simp
qed

section \<open>Inserting and reading back\<close>

lemma foldr_max_ge: "x \<in> set xs \<Longrightarrow> x \<le> foldr max xs (a::int)"
  by (induction xs) auto

lemma col_id_less_next_id: "r \<in> set (all_rows s) \<Longrightarrow> col_id r < next_id s"
  using foldr_max_ge [of "col_id r" "map col_id (all_rows s)"]
  by (auto simp: next_id_def next_rowid_def all_rows_def split: option.splits)

lemma next_id_get_db: "next_id (get_db s) = next_id s"
  by (simp add: next_id_def get_db_def split: option.splits)

lemma has_room_get_db: "has_room (get_db s) = has_room s"
  by (simp add: has_room_def next_id_get_db)

text \<open>What \<^verbatim>\<open>insert_entry\<close> does on an opened store.\<close>

lemma insert_entry_get_db:
  "insert_entry (get_db s) date_str title body tags mood focus_hours
       accomplishments blockers tomorrow now =
     (if has_room s then
        Inr ((get_db s)\<lparr>
               entries := Some \<lparr>seq = next_id s,
                  rows = all_rows s @ [stored_row (next_id s) date_str title body tags mood
                    focus_hours accomplishments blockers tomorrow now]\<rparr>,
               entries_fts := Some (all_docs s @ [doc_of (stored_row (next_id s) date_str title
                    body tags mood focus_hours accomplishments blockers tomorrow now)])\<rparr>,
             next_id s)
      else Inl OperationalError)"
  by (simp add: insert_entry_def get_db_def has_room_def next_id_def all_rows_def all_docs_def
      stored_row_def Let_def split: option.splits)

lemma insert_entry_InrD:
  assumes "insert_entry (get_db s) date_str title body tags mood focus_hours
       accomplishments blockers tomorrow now = Inr (s', eid)"
  shows "eid = next_id s"
    and "has_room s"
    and "all_rows s' = all_rows s @ [stored_row eid date_str title body tags mood
                    focus_hours accomplishments blockers tomorrow now]"
    and "all_docs s' = all_docs s @ [doc_of (stored_row eid date_str title body tags mood
                    focus_hours accomplishments blockers tomorrow now)]"
    and "get_db s' = s'"
  using assms unfolding insert_entry_get_db
  by (auto simp: all_rows_def all_docs_def get_db_def split: if_splits)

lemma row_to_entry_stored_row:
  "row_to_entry (stored_row eid date_str title body tags mood focus_hours
       accomplishments blockers tomorrow now) =
     Inr \<lparr>entry_id = eid, entry_date = date_str, entry_title = title, entry_body = body,
          entry_tags = read_back tags, entry_mood = mood, entry_focus_hours = focus_hours,
          entry_accomplishments = read_back accomplishments,
          entry_blockers = read_back blockers,
          entry_tomorrow = read_back tomorrow, entry_created_at = now\<rparr>"
  by (simp add: row_to_entry_def stored_row_def json_loads_dumps_any)

lemma find_appended_row:
  assumes "\<forall>r\<in>set rs. col_id r \<noteq> col_id x"
  shows "find (\<lambda>r. col_id r = col_id x) (rs @ [x]) = Some x"
  using assms by (induction rs) auto

lemma int64_has_room: "int64 (next_id s) \<Longrightarrow> has_room s"
  by (simp add: int64_def has_room_def)

text \<open>
  The entry that \<^verbatim>\<open>cmd_show\<close> gives right after the insert, for all lists of strings:
  the fields of the insert, with every list as it is read back.
\<close>

lemma insert_then_show_any:
  assumes "int64 (next_id s)"
  shows "\<exists>s'. insert_entry (get_db s) date_str title body tags mood focus_hours
                 accomplishments blockers tomorrow now = Inr (s', next_id s)
          \<and> cmd_show (next_id s) s' =
              (s', Inr (Some \<lparr>entry_id = next_id s, entry_date = date_str, entry_title = title,
                  entry_body = body, entry_tags = read_back tags, entry_mood = mood,
                  entry_focus_hours = focus_hours,
                  entry_accomplishments = read_back accomplishments,
                  entry_blockers = read_back blockers, entry_tomorrow = read_back tomorrow,
                  entry_created_at = now\<rparr>))"
proof -
  let ?x = "stored_row (next_id s) date_str title body tags mood focus_hours
       accomplishments blockers tomorrow now"
  obtain s' where ins: "insert_entry (get_db s) date_str title body tags mood focus_hours
                 accomplishments blockers tomorrow now = Inr (s', next_id s)"
    using int64_has_room [OF assms] by (simp add: insert_entry_get_db)
  note d = insert_entry_InrD [OF ins]
  have "col_id r \<noteq> next_id s" if "r \<in> set (all_rows s)" for r
    using col_id_less_next_id [OF that] by simp
  then have "\<forall>r\<in>set (all_rows s). col_id r \<noteq> col_id ?x"
    by (simp add: stored_row_def)
  then have "find (\<lambda>r. col_id r = col_id ?x) (all_rows s @ [?x]) = Some ?x"
    by (rule find_appended_row)
  moreover have "col_id ?x = next_id s" by (simp add: stored_row_def)
  ultimately have "find (\<lambda>r. col_id r = next_id s) (all_rows s') = Some ?x"
    using d(3) by simp
  then have "cmd_show (next_id s) s' =
      (s', Inr (Some \<lparr>entry_id = next_id s, entry_date = date_str, entry_title = title,
                  entry_body = body, entry_tags = read_back tags, entry_mood = mood,
                  entry_focus_hours = focus_hours,
                  entry_accomplishments = read_back accomplishments,
                  entry_blockers = read_back blockers, entry_tomorrow = read_back tomorrow,
                  entry_created_at = now\<rparr>))"
    using assms by (simp add: cmd_show_def d(5) row_to_entry_stored_row)
  with ins show ?thesis
    by simp
qed

text \<open>
  C6. Whenever the id of the new row is a 64-bit row id, \<^verbatim>\<open>insert_entry\<close> on an opened
  store succeeds and returns that id, and \<^verbatim>\<open>cmd_show\<close> with it, right afterwards, gives
  the entry whose date, title, body, mood, focus hours and time of creation are the
  arguments of the insert. The four lists do not always come back as they went in:
  \<^verbatim>\<open>json.loads\<close> of \<^verbatim>\<open>json.dumps\<close> of a list of strings is the list of the same
  length, in the same order and with its repetitions, in which every string has each
  high surrogate that a low surrogate follows joined with it into one character.
  A list whose strings have no such pair comes back as it is.
\<close>

theorem insert_then_show:
  assumes "int64 (next_id s)"
    and "\<forall>x\<in>set (tags @ accomplishments @ blockers @ tomorrow). valid_str x"
  shows "\<exists>s'. insert_entry (get_db s) date_str title body tags mood focus_hours
                 accomplishments blockers tomorrow now = Inr (s', next_id s)
          \<and> cmd_show (next_id s) s' =
              (s', Inr (Some \<lparr>entry_id = next_id s, entry_date = date_str, entry_title = title,
                  entry_body = body, entry_tags = map join_surrogates tags, entry_mood = mood,
                  entry_focus_hours = focus_hours,
                  entry_accomplishments = map join_surrogates accomplishments,
                  entry_blockers = map join_surrogates blockers,
                  entry_tomorrow = map join_surrogates tomorrow,
                  entry_created_at = now\<rparr>))
          \<and> json_loads (json_dumps tags) = Inr (map join_surrogates tags)
          \<and> json_loads (json_dumps accomplishments) = Inr (map join_surrogates accomplishments)
          \<and> json_loads (json_dumps blockers) = Inr (map join_surrogates blockers)
          \<and> json_loads (json_dumps tomorrow) = Inr (map join_surrogates tomorrow)
          \<and> (\<forall>xs\<in>{tags, accomplishments, blockers, tomorrow}.
                (\<forall>x\<in>set xs. \<not> has_surrogate_pair x) \<longrightarrow> map join_surrogates xs = xs)"
proof -
  have v: "\<forall>x\<in>set tags. valid_str x" "\<forall>x\<in>set accomplishments. valid_str x"
    "\<forall>x\<in>set blockers. valid_str x" "\<forall>x\<in>set tomorrow. valid_str x"
    using assms(2) by simp_all
  have r: "read_back tags = map join_surrogates tags"
    "read_back accomplishments = map join_surrogates accomplishments"
    "read_back blockers = map join_surrogates blockers"
    "read_back tomorrow = map join_surrogates tomorrow"
    using v by (simp_all add: read_back_valid)
  have n: "map join_surrogates xs = xs" if "\<forall>x\<in>set xs. \<not> has_surrogate_pair x" for xs
    using that by (simp add: join_surrogates_no_pair map_idI)
  have j: "json_loads (json_dumps tags) = Inr (map join_surrogates tags)"
    "json_loads (json_dumps accomplishments) = Inr (map join_surrogates accomplishments)"
    "json_loads (json_dumps blockers) = Inr (map join_surrogates blockers)"
    "json_loads (json_dumps tomorrow) = Inr (map join_surrogates tomorrow)"
    using v by (simp_all add: json_loads_dumps)
  from insert_then_show_any [OF assms(1), of date_str title body tags mood focus_hours
      accomplishments blockers tomorrow now]
  obtain s' where s': "insert_entry (get_db s) date_str title body tags mood focus_hours
                 accomplishments blockers tomorrow now = Inr (s', next_id s)"
    "cmd_show (next_id s) s' =
              (s', Inr (Some \<lparr>entry_id = next_id s, entry_date = date_str, entry_title = title,
                  entry_body = body, entry_tags = map join_surrogates tags, entry_mood = mood,
                  entry_focus_hours = focus_hours,
                  entry_accomplishments = map join_surrogates accomplishments,
                  entry_blockers = map join_surrogates blockers,
                  entry_tomorrow = map join_surrogates tomorrow,
                  entry_created_at = now\<rparr>))"
    unfolding r by blast
  show ?thesis
  proof (intro exI conjI)
    show "insert_entry (get_db s) date_str title body tags mood focus_hours
                 accomplishments blockers tomorrow now = Inr (s', next_id s)"
      by (rule s'(1))
    show "cmd_show (next_id s) s' =
              (s', Inr (Some \<lparr>entry_id = next_id s, entry_date = date_str, entry_title = title,
                  entry_body = body, entry_tags = map join_surrogates tags, entry_mood = mood,
                  entry_focus_hours = focus_hours,
                  entry_accomplishments = map join_surrogates accomplishments,
                  entry_blockers = map join_surrogates blockers,
                  entry_tomorrow = map join_surrogates tomorrow,
                  entry_created_at = now\<rparr>))"
      by (rule s'(2))
    show "\<forall>xs\<in>{tags, accomplishments, blockers, tomorrow}.
                (\<forall>x\<in>set xs. \<not> has_surrogate_pair x) \<longrightarrow> map join_surrogates xs = xs"
      using n by blast
  qed (rule j)+
qed

section \<open>The index follows the table\<close>

lemma foldr_max_snoc: "\<forall>x\<in>set xs. x < n \<Longrightarrow> foldr max (xs @ [n]) (n::int) = n"
  by (induction xs) auto

lemma insert_entry_next_id:
  assumes "insert_entry (get_db s) date_str title body tags mood focus_hours
       accomplishments blockers tomorrow now = Inr (s', eid)"
  shows "next_id s' = eid + 1"
proof -
  have "\<forall>x\<in>set (map col_id (all_rows s)). x < next_id s"
    using col_id_less_next_id [of _ s] by auto
  then have "foldr max (map col_id (all_rows s) @ [next_id s]) (next_id s) = next_id s"
    by (rule foldr_max_snoc)
  then show ?thesis
    using assms unfolding insert_entry_get_db
    by (auto simp: next_id_def [of s'] next_rowid_def stored_row_def split: if_splits)
qed

lemma reachable_in_sync: "reachable s \<Longrightarrow> all_docs s = map doc_of (all_rows s)"
proof (induction rule: reachable.induct)
  case reachable_new
  show ?case by (simp add: all_docs_def all_rows_def new_file_def)
next
  case (reachable_get_db s)
  then show ?case by (simp add: all_rows_get_db all_docs_get_db)
next
  case (reachable_insert s date_str title body tags mood focus_hours accomplishments blockers tomorrow now s' eid)
  from insert_entry_InrD(3,4) [OF reachable_insert.hyps(2)] reachable_insert.IH
  show ?case by simp
qed

lemma reachable_distinct: "reachable s \<Longrightarrow> distinct (map col_id (all_rows s))"
proof (induction rule: reachable.induct)
  case reachable_new
  show ?case by (simp add: all_rows_def new_file_def)
next
  case (reachable_get_db s)
  then show ?case by (simp add: all_rows_get_db)
next
  case (reachable_insert s date_str title body tags mood focus_hours accomplishments blockers tomorrow now s' eid)
  note d = insert_entry_InrD [OF reachable_insert.hyps(2)]
  have "eid \<notin> col_id ` set (all_rows s)"
  proof
    assume "eid \<in> col_id ` set (all_rows s)"
    then obtain r where "r \<in> set (all_rows s)" "col_id r = eid" by auto
    with col_id_less_next_id [of r s] d(1) show False by simp
  qed
  with reachable_insert.IH d(3) show ?case
    by (simp add: stored_row_def)
qed

lemma rowid_doc_of: "rowid (doc_of r) = col_id r"
  by (simp add: doc_of_def)

lemma filter_rowid_doc_of:
  assumes "distinct (map col_id rs)" "r \<in> set rs"
  shows "filter (\<lambda>d. rowid d = col_id r) (map doc_of rs) = [doc_of r]"
  using assms
proof (induction rs)
  case Nil
  then show ?case by simp
next
  case (Cons a rs)
  show ?case
  proof (cases "a = r")
    case True
    have "col_id x \<noteq> col_id r" if "x \<in> set rs" for x
      using Cons.prems(1) True that by (metis distinct.simps(2) imageI list.simps(9) set_map)
    then have "filter (\<lambda>d. rowid d = col_id r) (map doc_of rs) = []"
      by (simp add: filter_empty_conv rowid_doc_of)
    with True show ?thesis by (simp add: rowid_doc_of)
  next
    case False
    with Cons.prems have "r \<in> set rs" by simp
    moreover from this Cons.prems(1) have "col_id a \<noteq> col_id r" by auto
    ultimately show ?thesis using Cons by (simp add: rowid_doc_of)
  qed
qed

text \<open>
  C2. In every store that the program reaches, the index holds the documents of the
  rows of the table, one for one and in step: for each row exactly one document has
  its id, and that document is made of the title, the body and the JSON text of the
  tags of the row; an id has a row exactly when it has a document. An insert on such
  a store either fails and writes nothing, or appends the row and its document
  together.
\<close>

theorem index_in_step:
  assumes "reachable s"
  shows "all_docs s = map doc_of (all_rows s)
    \<and> (\<forall>r\<in>set (all_rows s). filter (\<lambda>d. rowid d = col_id r) (all_docs s) = [doc_of r])
    \<and> (\<forall>i. (\<exists>r\<in>set (all_rows s). col_id r = i) = (\<exists>d\<in>set (all_docs s). rowid d = i))
    \<and> (case insert_entry (get_db s) date_str title body tags mood focus_hours
               accomplishments blockers tomorrow now of
          Inl e \<Rightarrow> \<not> has_room s
        | Inr (s', eid) \<Rightarrow>
            reachable s'
            \<and> all_rows s' = all_rows s @ [stored_row eid date_str title body tags mood
                 focus_hours accomplishments blockers tomorrow now]
            \<and> all_docs s' = all_docs s @ [\<lparr>rowid = eid, fts_title = title, fts_body = body,
                 fts_tags_json = json_dumps tags\<rparr>]
            \<and> all_docs s' = map doc_of (all_rows s'))"
proof -
  note sync = reachable_in_sync [OF assms]
  have one: "\<forall>r\<in>set (all_rows s). filter (\<lambda>d. rowid d = col_id r) (all_docs s) = [doc_of r]"
    unfolding sync using filter_rowid_doc_of [OF reachable_distinct [OF assms]] by blast
  have both: "(\<exists>r\<in>set (all_rows s). col_id r = i) = (\<exists>d\<in>set (all_docs s). rowid d = i)" for i
    unfolding sync by (auto simp: doc_of_def)
  have ins: "case insert_entry (get_db s) date_str title body tags mood focus_hours
               accomplishments blockers tomorrow now of
          Inl e \<Rightarrow> \<not> has_room s
        | Inr (s', eid) \<Rightarrow>
            reachable s'
            \<and> all_rows s' = all_rows s @ [stored_row eid date_str title body tags mood
                 focus_hours accomplishments blockers tomorrow now]
            \<and> all_docs s' = all_docs s @ [\<lparr>rowid = eid, fts_title = title, fts_body = body,
                 fts_tags_json = json_dumps tags\<rparr>]
            \<and> all_docs s' = map doc_of (all_rows s')"
  proof (cases "insert_entry (get_db s) date_str title body tags mood focus_hours
               accomplishments blockers tomorrow now")
    case (Inl e)
    then show ?thesis by (simp add: insert_entry_get_db split: if_splits)
  next
    case (Inr p)
    obtain s' eid where p: "p = (s', eid)" by (cases p)
    note d = insert_entry_InrD [OF Inr [unfolded p]]
    have r: "reachable s'"
      using reachable_insert [OF assms Inr [unfolded p]] .
    show ?thesis
      using r d(3,4) reachable_in_sync [OF r] by (simp add: Inr p doc_of_def stored_row_def)
  qed
  show ?thesis using sync one both ins by blast
qed

section \<open>Moods\<close>

text \<open>
  C1 (as the code has it). The check of the mood is in \<^verbatim>\<open>cmd_add\<close>, not in
  \<^verbatim>\<open>insert_entry\<close>: for a mood outside \<^verbatim>\<open>MOODS\<close>, \<^verbatim>\<open>cmd_add\<close> ends with
  \<^verbatim>\<open>sys.exit(1)\<close> before it inserts, and the rows and the documents of the store are
  those from before the call.
\<close>

theorem cmd_add_rejects_mood:
  assumes "arg_mood args \<notin> set MOODS"
  shows "cmd_add today now args s = (get_db s, Inl (SystemExit 1))
    \<and> all_rows (get_db s) = all_rows s
    \<and> all_docs (get_db s) = all_docs s"
  using assms by (simp add: cmd_add_def Let_def all_rows_get_db all_docs_get_db)

section \<open>The example journal\<close>

lemma insert_entry_projr:
  assumes "has_room s"
  shows "insert_entry (get_db s) date_str title body tags mood focus_hours
       accomplishments blockers tomorrow now =
     Inr (fst (projr (insert_entry (get_db s) date_str title body tags mood focus_hours
       accomplishments blockers tomorrow now)), next_id s)"
  using assms by (simp add: insert_entry_get_db)

lemma next_id_new_file: "next_id new_file = 1"
  by (simp add: next_id_def new_file_def next_rowid_def)

lemma has_room_small: "next_id s \<le> 1000 \<Longrightarrow> has_room s"
  by (simp add: has_room_def MAX_ROWID_def)

lemma all_rows_new_file: "all_rows new_file = []"
  by (simp add: all_rows_def new_file_def)

lemma journal1_inserted:
  "insert_entry (get_db new_file) ''2019-12-31'' ''Year end'' ''wrap up''
     [U ''retro''] ''rough'' 1 [U ''Closed the books''] [] [] ''2019-12-31T18:00:00'' = Inr (journal1, 1)"
  using insert_entry_projr [OF has_room_small, of new_file]
  by (simp add: next_id_new_file journal1_def)

lemma next_id_journal1: "next_id journal1 = 2"
  using insert_entry_next_id [OF journal1_inserted] by simp

lemma journal2_inserted:
  "insert_entry (get_db journal1) ''2024-01-15'' ''Shipping OAuth feature''
     ''body'' [U ''python'', U ''api'', U ''python''] ''great'' 2 [U ''Ship it'', U ''Tests pass'']
     [U ''DB is slow''] [U ''Write docs'', U ''Review PR''] ''2024-01-15T17:30:00'' = Inr (journal2, 2)"
  using insert_entry_projr [OF has_room_small, of journal1]
  by (simp add: next_id_journal1 journal2_def)

lemma next_id_journal2: "next_id journal2 = 3"
  using insert_entry_next_id [OF journal2_inserted] by simp

lemma journal3_inserted:
  "insert_entry (get_db journal2) ''2024-01-17'' ''Nothing special''
     ''OAuth follow up'' [] ''ok'' 3 [U ''Review PR''] [] [] ''2024-01-17T09:00:00'' = Inr (journal3, 3)"
  using insert_entry_projr [OF has_room_small, of journal2]
  by (simp add: next_id_journal2 journal3_def)

lemma reachable_journal3: "reachable journal3"
  by (rule reachable_insert [OF reachable_insert [OF reachable_insert [OF reachable_new journal1_inserted] journal2_inserted] journal3_inserted])

lemma all_rows_journal3:
  "all_rows journal3 =
    [stored_row 1 ''2019-12-31'' ''Year end'' ''wrap up''
       [U ''retro''] ''rough'' 1 [U ''Closed the books''] [] [] ''2019-12-31T18:00:00'',
     stored_row 2 ''2024-01-15'' ''Shipping OAuth feature''
       ''body'' [U ''python'', U ''api'', U ''python''] ''great'' 2 [U ''Ship it'', U ''Tests pass'']
       [U ''DB is slow''] [U ''Write docs'', U ''Review PR''] ''2024-01-15T17:30:00'',
     stored_row 3 ''2024-01-17'' ''Nothing special''
       ''OAuth follow up'' [] ''ok'' 3 [U ''Review PR''] [] [] ''2024-01-17T09:00:00'']"
  using insert_entry_InrD(3) [OF journal1_inserted] insert_entry_InrD(3) [OF journal2_inserted]
    insert_entry_InrD(3) [OF journal3_inserted]
  by (simp add: all_rows_new_file)

lemma get_db_journal3: "get_db journal3 = journal3"
  by (rule insert_entry_InrD(5) [OF journal3_inserted])

text \<open>C6 on the second entry of the example journal: the tag \<^verbatim>\<open>python\<close> comes back twice.\<close>

theorem insert_then_show_journal2:
  "int64 (next_id journal1)
   \<and> list_all valid_str ([U ''python'', U ''api'', U ''python''] @ [U ''Ship it'', U ''Tests pass'']
        @ [U ''DB is slow''] @ [U ''Write docs'', U ''Review PR''])
   \<and> insert_entry (get_db journal1) ''2024-01-15'' ''Shipping OAuth feature''
     ''body'' [U ''python'', U ''api'', U ''python''] ''great'' 2 [U ''Ship it'', U ''Tests pass'']
     [U ''DB is slow''] [U ''Write docs'', U ''Review PR''] ''2024-01-15T17:30:00'' = Inr (journal2, 2)
   \<and> cmd_show 2 journal2 =
      (journal2, Inr (Some \<lparr>entry_id = 2, entry_date = ''2024-01-15'',
         entry_title = ''Shipping OAuth feature'', entry_body = ''body'',
         entry_tags = [U ''python'', U ''api'', U ''python''], entry_mood = ''great'',
         entry_focus_hours = 2, entry_accomplishments = [U ''Ship it'', U ''Tests pass''],
         entry_blockers = [U ''DB is slow''], entry_tomorrow = [U ''Write docs'', U ''Review PR''],
         entry_created_at = ''2024-01-15T17:30:00''\<rparr>))"
proof -
  have room: "int64 (next_id journal1)"
    by (simp add: next_id_journal1 int64_def MAX_ROWID_def)
  have v: "\<forall>x\<in>set ([U ''python'', U ''api'', U ''python''] @ [U ''Ship it'', U ''Tests pass'']
        @ [U ''DB is slow''] @ [U ''Write docs'', U ''Review PR'']). valid_str x"
    by simp
  from insert_then_show [OF room v, of "''2024-01-15''" "''Shipping OAuth feature''"
     "''body''" "''great''" 2 "''2024-01-15T17:30:00''"]
  show ?thesis
    using room by (simp add: journal2_inserted next_id_journal1)
qed

text \<open>
  C6 as stated fails for a tag of two code points, a high surrogate and a low
  surrogate (\<^verbatim>\<open>'\ud83d\ude80'\<close>, whose JSON text is \<^verbatim>\<open>["\ud83d\ude80"]\<close>): the insert on
  a new file succeeds with the id 1, and \<^verbatim>\<open>cmd_show\<close> gives the entry with a tag of one
  code point, U+1F680.
\<close>

theorem show_joins_surrogate_pair:
  "\<exists>s'. insert_entry (get_db new_file) ''2024-01-17'' ''Launch'' ''body'' [[0xD83D, 0xDE80]]
           ''good'' 1 [] [] [] ''2024-01-17T09:00:00'' = Inr (s', 1)
     \<and> cmd_show 1 s' =
         (s', Inr (Some \<lparr>entry_id = 1, entry_date = ''2024-01-17'', entry_title = ''Launch'',
            entry_body = ''body'', entry_tags = [[0x1F680]], entry_mood = ''good'',
            entry_focus_hours = 1, entry_accomplishments = [], entry_blockers = [],
            entry_tomorrow = [], entry_created_at = ''2024-01-17T09:00:00''\<rparr>))
     \<and> [[0x1F680]] \<noteq> [[0xD83D, 0xDE80 :: nat]]
     \<and> json_dumps [[0xD83D, 0xDE80]] =
          CHR ''['' # CHR 0x22 # CHR 0x5C # ''ud83d'' @ CHR 0x5C # ''ude80'' @ [CHR 0x22, CHR '']'']
     \<and> json_loads (CHR ''['' # CHR 0x22 # CHR 0x5C # ''ud83d'' @ CHR 0x5C # ''ude80'' @ [CHR 0x22, CHR '']'']) =
          Inr [[0x1F680]]"
proof -
  have room: "int64 (next_id new_file)"
    by (simp add: next_id_new_file int64_def MAX_ROWID_def)
  have r: "read_back [[0xD83D, 0xDE80]] = [[0x1F680]]"
    by (simp add: read_back_def json_char_def high_surrogate_def low_surrogate_def join_pair_def)
  have d: "json_dumps [[0xD83D, 0xDE80]] =
      CHR ''['' # CHR 0x22 # CHR 0x5C # ''ud83d'' @ CHR 0x5C # ''ude80'' @ [CHR 0x22, CHR '']'']"
    by (simp add: json_dumps_def encode_basestring_ascii_def escape_char_def hex4_def
        hexdigit_def)
  have l: "json_loads (CHR ''['' # CHR 0x22 # CHR 0x5C # ''ud83d'' @ CHR 0x5C # ''ude80'' @ [CHR 0x22, CHR '']'']) =
      Inr [[0x1F680]]"
    using json_loads_dumps_any [of "[[0xD83D, 0xDE80]]"] by (simp add: d r)
  from insert_then_show_any [OF room, of "''2024-01-17''" "''Launch''" "''body''"
     "[[0xD83D, 0xDE80]]" "''good''" 1 "[]" "[]" "[]" "''2024-01-17T09:00:00''"] l
  show ?thesis
    unfolding r by (simp add: next_id_new_file d)
qed

text \<open>C2 on the example journal.\<close>

theorem index_in_step_journal3:
  "reachable journal3
   \<and> all_docs journal3 = map doc_of (all_rows journal3)
   \<and> map col_id (all_rows journal3) = [1, 2, 3]
   \<and> map rowid (all_docs journal3) = [1, 2, 3]
   \<and> map fts_title (all_docs journal3) = [''Year end'', ''Shipping OAuth feature'', ''Nothing special'']"
proof -
  have "all_docs journal3 = map doc_of (all_rows journal3)"
    using index_in_step [OF reachable_journal3] by blast
  then show ?thesis
    by (simp add: reachable_journal3 all_rows_journal3 stored_row_def doc_of_def)
qed

text \<open>C1 on the example journal: \<^verbatim>\<open>cmd_add\<close> with the mood \<^verbatim>\<open>terrible\<close>.\<close>

theorem cmd_add_rejects_mood_journal3:
  "''terrible'' \<notin> set MOODS
   \<and> cmd_add 738902 ''2024-01-17T10:00:00''
        \<lparr>arg_title = ''Bad day'', arg_body = [], arg_tags = ''#python, api'', arg_mood = ''terrible'',
         arg_hours = 1, arg_accomplishments = [], arg_blockers = [], arg_tomorrow = []\<rparr>
        journal3 = (journal3, Inl (SystemExit 1))
   \<and> map col_id (all_rows journal3) = [1, 2, 3]"
proof -
  have m: "''terrible'' \<notin> set MOODS" by (simp add: MOODS_def)
  show ?thesis
    using cmd_add_rejects_mood [of "\<lparr>arg_title = ''Bad day'', arg_body = [], arg_tags = ''#python, api'', arg_mood = ''terrible'',
         arg_hours = 1, arg_accomplishments = [], arg_blockers = [], arg_tomorrow = []\<rparr>" 738902 "''2024-01-17T10:00:00''" journal3] m
    by (simp add: get_db_journal3 all_rows_journal3 stored_row_def)
qed

text \<open>
  C1 as stated fails for \<^verbatim>\<open>insert_entry\<close> itself, which checks nothing: with the
  mood \<^verbatim>\<open>terrible\<close> it stores a fourth row.
\<close>

theorem insert_entry_keeps_any_mood:
  "''terrible'' \<notin> set MOODS
   \<and> (case insert_entry (get_db journal3) ''2024-01-17'' ''Bad day'' [] [] ''terrible'' 1 [] [] []
         ''2024-01-17T10:00:00'' of
        Inl e \<Rightarrow> False
      | Inr (s', eid) \<Rightarrow>
          eid = 4 \<and> map col_id (all_rows s') = [1, 2, 3, 4]
          \<and> map col_mood (all_rows s') = [''rough'', ''great'', ''ok'', ''terrible''])"
proof -
  have "has_room journal3"
    using insert_entry_next_id [OF journal3_inserted] by (intro has_room_small) simp
  from insert_entry_projr [OF this, of "''2024-01-17''" "''Bad day''" "[]" "[]" "''terrible''" 1
      "[]" "[]" "[]" "''2024-01-17T10:00:00''"] insert_entry_next_id [OF journal3_inserted]
  obtain s' where s': "insert_entry (get_db journal3) ''2024-01-17'' ''Bad day'' [] [] ''terrible'' 1 [] [] []
         ''2024-01-17T10:00:00'' = Inr (s', 4)"
    by simp
  from insert_entry_InrD(3) [OF s'] show ?thesis
    by (simp add: s' all_rows_journal3 stored_row_def MOODS_def)
qed

section \<open>The streak\<close>

lemma consecutive_iff_nth:
  "consecutive ds \<longleftrightarrow> (\<forall>j. Suc j < length ds \<longrightarrow> ds ! j - ds ! Suc j = 1)"
proof (induction ds rule: consecutive.induct)
  case (1 a b ds)
  show ?case
  proof
    assume c: "consecutive (a # b # ds)"
    show "\<forall>j. Suc j < length (a # b # ds) \<longrightarrow> (a # b # ds) ! j - (a # b # ds) ! Suc j = 1"
    proof (intro allI impI)
      fix j assume j: "Suc j < length (a # b # ds)"
      show "(a # b # ds) ! j - (a # b # ds) ! Suc j = 1"
      proof (cases j)
        case 0
        with c show ?thesis by simp
      next
        case (Suc k)
        with c j 1 show ?thesis by simp
      qed
    qed
  next
    assume h: "\<forall>j. Suc j < length (a # b # ds) \<longrightarrow> (a # b # ds) ! j - (a # b # ds) ! Suc j = 1"
    from h [rule_format, of 0] have "a - b = 1" by simp
    moreover have "\<forall>j. Suc j < length (b # ds) \<longrightarrow> (b # ds) ! j - (b # ds) ! Suc j = 1"
    proof (intro allI impI)
      fix j assume "Suc j < length (b # ds)"
      with h [rule_format, of "Suc j"] show "(b # ds) ! j - (b # ds) ! Suc j = 1" by simp
    qed
    ultimately show "consecutive (a # b # ds)" using 1 by simp
  qed
qed simp_all

lemma streak_loop_run:
  assumes "streak = i + 1" "i < length dates"
    and "\<forall>j. Suc j < streak \<longrightarrow> dates ! j - dates ! Suc j = 1"
  shows "i < streak_loop dates i streak \<and> streak_loop dates i streak \<le> length dates
    \<and> (\<forall>j. Suc j < streak_loop dates i streak \<longrightarrow> dates ! j - dates ! Suc j = 1)
    \<and> (streak_loop dates i streak < length dates \<longrightarrow>
          dates ! (streak_loop dates i streak - 1) - dates ! (streak_loop dates i streak) \<noteq> 1)"
  using assms
proof (induction dates i streak rule: streak_loop.induct)
  case (1 dates i streak)
  show ?case
  proof (cases "i < length dates - 1")
    case False
    then have "streak_loop dates i streak = streak"
      by (simp add: streak_loop.simps [of dates i streak])
    moreover from False "1.prems" have "streak = length dates" by simp
    ultimately show ?thesis using "1.prems" by simp
  next
    case True
    show ?thesis
    proof (cases "dates ! i - dates ! (i + 1) = 1")
      case False
      with True have "streak_loop dates i streak = streak"
        by (simp add: streak_loop.simps [of dates i streak])
      with True False "1.prems" show ?thesis by simp
    next
      case step: True
      with True have eq: "streak_loop dates i streak = streak_loop dates (i + 1) (streak + 1)"
        by (simp add: streak_loop.simps [of dates i streak])
      have a: "streak + 1 = (i + 1) + 1" using "1.prems"(1) by simp
      have b: "i + 1 < length dates" using True by simp
      have c: "\<forall>j. Suc j < streak + 1 \<longrightarrow> dates ! j - dates ! Suc j = 1"
      proof (intro allI impI)
        fix j assume "Suc j < streak + 1"
        then have "Suc j < streak \<or> j = i" using "1.prems"(1) by auto
        then show "dates ! j - dates ! Suc j = 1"
          using "1.prems"(3) step by auto
      qed
      from "1.IH" [OF True step a b c]
      show ?thesis unfolding eq by simp
    qed
  qed
qed

text \<open>
  C5. For every list of dates that is not empty, the streak that \<^verbatim>\<open>cmd_streak\<close>
  computes is the length of the longest prefix of the list in which each date is
  exactly one day before the one in front of it: that prefix is consecutive, and no
  longer prefix is. It is 3 for today, yesterday and the day before, 1 for today and
  the day before yesterday, and 1 for a single date, whatever the date.
\<close>

theorem streak_is_longest_run:
  assumes "dates \<noteq> []"
  shows "\<exists>k. cmd_streak dates = Some (k, length dates)
    \<and> 1 \<le> k \<and> k \<le> length dates
    \<and> consecutive (take k dates)
    \<and> (\<forall>n. n \<le> length dates \<and> consecutive (take n dates) \<longrightarrow> n \<le> k)
    \<and> cmd_streak [today, today - 1, today - 2] = Some (3, 3)
    \<and> cmd_streak [today, today - 2] = Some (1, 2)
    \<and> cmd_streak [d] = Some (1, 1)"
proof -
  define k where "k = streak_loop dates 0 1"
  have run: "0 < k \<and> k \<le> length dates
    \<and> (\<forall>j. Suc j < k \<longrightarrow> dates ! j - dates ! Suc j = 1)
    \<and> (k < length dates \<longrightarrow> dates ! (k - 1) - dates ! k \<noteq> 1)"
    unfolding k_def using assms by (intro streak_loop_run) simp_all
  have cons: "consecutive (take k dates)"
    unfolding consecutive_iff_nth using run by simp
  have maxi: "n \<le> k" if n: "n \<le> length dates" "consecutive (take n dates)" for n
  proof (rule ccontr)
    assume "\<not> n \<le> k"
    then have kn: "k < n" by simp
    with n(1) have "k < length dates" by simp
    with run have neq: "dates ! (k - 1) - dates ! k \<noteq> 1" by simp
    from n(2) [unfolded consecutive_iff_nth, rule_format, of "k - 1"] kn n(1) run
    have "dates ! (k - 1) - dates ! k = 1" by simp
    with neq show False by simp
  qed
  have ex: "cmd_streak [today, today - 1, today - 2] = Some (3, 3)"
    "cmd_streak [today, today - 2] = Some (1, 2)"
    "cmd_streak [d] = Some (1, 1)"
    by (simp_all add: cmd_streak_def streak_loop.simps)
  have "cmd_streak dates = Some (k, length dates)"
    using assms by (simp add: cmd_streak_def k_def)
  with run cons maxi ex show ?thesis by auto
qed

text \<open>C5 on five dates with a gap after the third (738902 is 2024-01-17).\<close>

theorem streak_is_longest_run_witness:
  "[738902, 738901, 738900, 738897, 738896] \<noteq> ([] :: pydate list)
   \<and> cmd_streak [738902, 738901, 738900, 738897, 738896] = Some (3, 5)
   \<and> consecutive (take 3 [738902, 738901, 738900, 738897, 738896 :: pydate])
   \<and> \<not> consecutive (take 4 [738902, 738901, 738900, 738897, 738896 :: pydate])
   \<and> cmd_streak [738902, 738901, 738900 :: pydate] = Some (3, 3)
   \<and> cmd_streak [738902, 738900 :: pydate] = Some (1, 2)
   \<and> cmd_streak [738890 :: pydate] = Some (1, 1)"
proof -
  have ne: "[738902, 738901, 738900, 738897, 738896] \<noteq> ([] :: pydate list)" by simp
  have t: "take 3 [738902, 738901, 738900, 738897, 738896 :: pydate] = [738902, 738901, 738900]"
    "take 4 [738902, 738901, 738900, 738897, 738896 :: pydate] = [738902, 738901, 738900, 738897]"
    by (simp_all add: take_Cons')
  from streak_is_longest_run [OF ne, of 738902 738890]
  obtain k where k: "cmd_streak [738902, 738901, 738900, 738897, 738896] = Some (k, 5)"
    and ex: "cmd_streak [738902, 738902 - 1, 738902 - 2] = Some (3, 3)"
      "cmd_streak [738902, 738902 - 2] = Some (1, 2)"
      "cmd_streak [738890] = Some (1, 1)"
    by auto
  have "cmd_streak [738902, 738901, 738900, 738897, 738896] = Some (3, 5)"
    by (simp add: cmd_streak_def streak_loop.simps)
  with ex show ?thesis by (simp add: t)
qed

section \<open>Rows of reachable stores\<close>

lemma stored_row_sel [simp]:
  "col_id (stored_row eid date_str title body tags mood focus_hours accomplishments blockers tomorrow now) = eid"
  "col_date (stored_row eid date_str title body tags mood focus_hours accomplishments blockers tomorrow now) = date_str"
  "col_title (stored_row eid date_str title body tags mood focus_hours accomplishments blockers tomorrow now) = title"
  "col_body (stored_row eid date_str title body tags mood focus_hours accomplishments blockers tomorrow now) = body"
  "col_tags_json (stored_row eid date_str title body tags mood focus_hours accomplishments blockers tomorrow now) = json_dumps tags"
  "col_mood (stored_row eid date_str title body tags mood focus_hours accomplishments blockers tomorrow now) = mood"
  "col_focus_hours (stored_row eid date_str title body tags mood focus_hours accomplishments blockers tomorrow now) = focus_hours"
  "col_accomplishments (stored_row eid date_str title body tags mood focus_hours accomplishments blockers tomorrow now) = json_dumps accomplishments"
  "col_blockers (stored_row eid date_str title body tags mood focus_hours accomplishments blockers tomorrow now) = json_dumps blockers"
  "col_tomorrow (stored_row eid date_str title body tags mood focus_hours accomplishments blockers tomorrow now) = json_dumps tomorrow"
  "col_created_at (stored_row eid date_str title body tags mood focus_hours accomplishments blockers tomorrow now) = now"
  by (simp_all add: stored_row_def)

text \<open>Every row of a reachable store was written by \<^verbatim>\<open>insert_entry\<close>.\<close>

lemma reachable_rows_stored:
  "reachable s \<Longrightarrow> r \<in> set (all_rows s) \<Longrightarrow>
   \<exists>tags accomplishments blockers tomorrow.
     r = stored_row (col_id r) (col_date r) (col_title r) (col_body r) tags (col_mood r)
           (col_focus_hours r) accomplishments blockers tomorrow (col_created_at r)"
proof (induction rule: reachable.induct)
  case reachable_new
  then show ?case by (simp add: all_rows_def new_file_def)
next
  case (reachable_get_db s)
  then show ?case by (simp add: all_rows_get_db)
next
  case (reachable_insert s date_str title body tags mood focus_hours accomplishments blockers tomorrow now s' eid)
  from reachable_insert.prems insert_entry_InrD(3) [OF reachable_insert.hyps(2)]
  consider "r \<in> set (all_rows s)"
    | "r = stored_row eid date_str title body tags mood focus_hours accomplishments blockers tomorrow now"
    by auto
  then show ?case
  proof cases
    case 1
    then show ?thesis by (rule reachable_insert.IH)
  next
    case 2
    show ?thesis
      by (rule exI [of _ tags], rule exI [of _ accomplishments], rule exI [of _ blockers],
          rule exI [of _ tomorrow]) (simp add: 2)
  qed
qed

lemma reachable_row_to_entry:
  assumes "reachable s" "r \<in> set (all_rows s)"
  shows "\<exists>e. row_to_entry r = Inr e"
proof -
  from reachable_rows_stored [OF assms] obtain tags accomplishments blockers tomorrow where
    r: "r = stored_row (col_id r) (col_date r) (col_title r) (col_body r) tags (col_mood r)
           (col_focus_hours r) accomplishments blockers tomorrow (col_created_at r)" by blast
  show ?thesis
    by (subst r) (simp only: row_to_entry_stored_row sum.inject simp_thms)
qed

lemma reachable_accomplishments:
  assumes "reachable s" "r \<in> set (all_rows s)"
  shows "\<exists>xs. json_loads (col_accomplishments r) = Inr xs"
proof -
  from reachable_rows_stored [OF assms] obtain tags accomplishments blockers tomorrow where
    r: "r = stored_row (col_id r) (col_date r) (col_title r) (col_body r) tags (col_mood r)
           (col_focus_hours r) accomplishments blockers tomorrow (col_created_at r)" by blast
  show ?thesis
    by (subst r) (simp only: stored_row_sel json_loads_dumps_any sum.inject simp_thms)
qed

lemma row_to_entry_InrD:
  assumes "row_to_entry r = Inr e"
  shows "entry_id e = col_id r" "entry_date e = col_date r" "entry_title e = col_title r"
    "entry_mood e = col_mood r" "entry_focus_hours e = col_focus_hours r"
proof -
  obtain a where a: "json_loads (col_tags_json r) = Inr a"
    using assms by (cases "json_loads (col_tags_json r)") (simp_all add: row_to_entry_def)
  obtain b where b: "json_loads (col_accomplishments r) = Inr b"
    using assms a by (cases "json_loads (col_accomplishments r)") (simp_all add: row_to_entry_def)
  obtain c where c: "json_loads (col_blockers r) = Inr c"
    using assms a b by (cases "json_loads (col_blockers r)") (simp_all add: row_to_entry_def)
  obtain d where d: "json_loads (col_tomorrow r) = Inr d"
    using assms a b c by (cases "json_loads (col_tomorrow r)") (simp_all add: row_to_entry_def)
  from assms a b c d have
    "e = \<lparr>entry_id = col_id r, entry_date = col_date r, entry_title = col_title r,
          entry_body = col_body r, entry_tags = a, entry_mood = col_mood r,
          entry_focus_hours = col_focus_hours r, entry_accomplishments = b,
          entry_blockers = c, entry_tomorrow = d, entry_created_at = col_created_at r\<rparr>"
    by (simp add: row_to_entry_def)
  then show "entry_id e = col_id r" "entry_date e = col_date r" "entry_title e = col_title r"
    "entry_mood e = col_mood r" "entry_focus_hours e = col_focus_hours r"
    by simp_all
qed

text \<open>A loop over elements on which the body raises nothing runs to its end.\<close>

lemma for_each_Inr:
  assumes "\<forall>x\<in>set xs. \<exists>y. f x = Inr y"
  shows "\<exists>ys. for_each f xs = Inr ys \<and> map f xs = map Inr ys"
  using assms
proof (induction xs)
  case Nil
  then show ?case by simp
next
  case (Cons x xs)
  then obtain y ys where "f x = Inr y" "for_each f xs = Inr ys" "map f xs = map Inr ys"
    by auto
  then show ?case by simp
qed

lemma for_each_Inl:
  assumes "x \<in> set xs" "f x = Inl e" "\<forall>x'\<in>set xs. \<forall>e'. f x' = Inl e' \<longrightarrow> e' = e"
  shows "for_each f xs = Inl e"
  using assms
proof (induction xs)
  case Nil
  then show ?case by simp
next
  case (Cons a xs)
  show ?case
  proof (cases "f a")
    case (Inl e')
    from Cons.prems(3) Inl have "e' = e" by simp
    with Inl show ?thesis by simp
  next
    case (Inr y)
    have "x \<noteq> a" using Inr Cons.prems(2) by auto
    with Cons.prems(1) have x: "x \<in> set xs" by simp
    have "\<forall>x'\<in>set xs. \<forall>e'. f x' = Inl e' \<longrightarrow> e' = e"
      using Cons.prems(3) by simp
    from Cons.IH [OF x Cons.prems(2) this] Inr show ?thesis by simp
  qed
qed

section \<open>The weekly summary\<close>

lemma weekday_range: "0 \<le> weekday d \<and> weekday d \<le> 6"
  by (simp add: weekday_def)

lemma week_start_ge: "1 \<le> (t::int) \<Longrightarrow> 1 \<le> t - (t + 6) mod 7"
  by presburger

lemma weekday_week_start: "weekday (d - weekday d) = 0"
  unfolding weekday_def by presburger

lemma week_start:
  assumes "valid_date today"
  shows "date_sub_days today (weekday today) = Inr (today - weekday today)"
    and "valid_date (today - weekday today)"
proof -
  note w = weekday_range [of today]
  have lo: "1 \<le> today - weekday today"
    using assms week_start_ge [of today] by (simp add: weekday_def valid_date_def)
  have hi: "today - weekday today \<le> MAXORDINAL"
    using assms w by (simp add: valid_date_def)
  show "date_sub_days today (weekday today) = Inr (today - weekday today)"
    using w lo hi by (simp add: date_sub_days_def)
  show "valid_date (today - weekday today)"
    using lo hi by (simp add: valid_date_def)
qed

text \<open>
  C3 (as the code has it). For every reachable store and every date \<open>today\<close>, the
  weekly summary takes exactly the entries whose date text is not before the Monday
  of the week of \<open>today\<close> (\<open>today\<close> minus \<^verbatim>\<open>today.weekday()\<close> days, Monday being 0),
  each once and in ascending order of date; the query has no upper bound. It reports
  their number, the total that Python's \<^verbatim>\<open>sum()\<close> gives for the list of their focus
  hours in that order (a sum of floats: \<^verbatim>\<open>sum()\<close> is the parameter \<open>py_sum\<close>, and the
  total is of these entries and of no other, whatever \<^verbatim>\<open>sum()\<close> is), and their
  accomplishments, concatenated in that order. When no entry of the store is dated
  after \<open>today\<close>, these are the entries of the window from the Monday to \<open>today\<close>,
  both included.
\<close>

theorem weekly_from_monday:
  assumes "reachable s" "valid_date today"
  shows "\<exists>start rows lists.
      start = today - weekday today \<and> weekday start = 0 \<and> valid_date start
      \<and> mset rows = mset (filter (\<lambda>r. isoformat start \<le> col_date r) (all_rows s))
      \<and> sorted (map col_date rows)
      \<and> map (\<lambda>r. json_loads (col_accomplishments r)) rows = map Inr lists
      \<and> cmd_weekly py_sum today s =
          (get_db s, Inr (length rows, py_sum (map col_focus_hours rows), concat lists))
      \<and> ((\<forall>r\<in>set (all_rows s). col_date r \<le> isoformat today) \<longrightarrow>
           set rows = {r \<in> set (all_rows s).
                         isoformat start \<le> col_date r \<and> col_date r \<le> isoformat today})"
proof -
  define start where "start = today - weekday today"
  define rows where
    "rows = order_by col_date (filter (\<lambda>r. isoformat start \<le> col_date r) (all_rows s))"
  note ws = week_start [OF assms(2), folded start_def]
  have m: "mset rows = mset (filter (\<lambda>r. isoformat start \<le> col_date r) (all_rows s))"
    by (simp add: rows_def order_by_def)
  have so: "sorted (map col_date rows)"
    by (simp add: rows_def order_by_def)
  have sub: "set rows \<subseteq> set (all_rows s)"
    by (auto simp: rows_def order_by_def)
  then have "\<forall>r\<in>set rows. \<exists>xs. json_loads (col_accomplishments r) = Inr xs"
    using reachable_accomplishments [OF assms(1)] by blast
  from for_each_Inr [OF this] obtain lists where
    l: "for_each (\<lambda>r. json_loads (col_accomplishments r)) rows = Inr lists"
       "map (\<lambda>r. json_loads (col_accomplishments r)) rows = map Inr lists" by blast
  have c: "cmd_weekly py_sum today s =
          (get_db s, Inr (length rows, py_sum (map col_focus_hours rows), concat lists))"
    using l(1) by (simp add: cmd_weekly_def ws(1) all_rows_get_db rows_def [symmetric] Let_def)
  have w: "set rows = {r \<in> set (all_rows s).
                         isoformat start \<le> col_date r \<and> col_date r \<le> isoformat today}"
    if "\<forall>r\<in>set (all_rows s). col_date r \<le> isoformat today"
    using that by (auto simp: rows_def order_by_def)
  have wk: "weekday start = 0"
    unfolding start_def by (rule weekday_week_start)
  have w': "(\<forall>r\<in>set (all_rows s). col_date r \<le> isoformat today) \<longrightarrow>
           set rows = {r \<in> set (all_rows s).
                         isoformat start \<le> col_date r \<and> col_date r \<le> isoformat today}"
    using w by blast
  show ?thesis
  proof (intro exI conjI)
    show "start = today - weekday today" by (rule start_def)
    show "weekday start = 0" by (rule wk)
    show "valid_date start" by (rule ws(2))
    show "mset rows = mset (filter (\<lambda>r. isoformat start \<le> col_date r) (all_rows s))" by (rule m)
    show "sorted (map col_date rows)" by (rule so)
    show "map (\<lambda>r. json_loads (col_accomplishments r)) rows = map Inr lists" by (rule l(2))
    show "cmd_weekly py_sum today s =
          (get_db s, Inr (length rows, py_sum (map col_focus_hours rows), concat lists))" by (rule c)
    show "(\<forall>r\<in>set (all_rows s). col_date r \<le> isoformat today) \<longrightarrow>
           set rows = {r \<in> set (all_rows s).
                         isoformat start \<le> col_date r \<and> col_date r \<le> isoformat today}" by (rule w')
  qed
qed

text \<open>The examples.\<close>

lemma journal_ahead_inserted:
  "insert_entry (get_db journal3) ''2024-01-20'' ''Planned''
     [] [] ''good'' 4 [U ''Future work''] [] [] ''2024-01-17T11:00:00'' = Inr (journal_ahead, 4)"
  using insert_entry_projr [OF has_room_small, of journal3] insert_entry_next_id [OF journal3_inserted]
  by (simp add: journal_ahead_def)

lemma reachable_journal_ahead: "reachable journal_ahead"
  by (rule reachable_insert [OF reachable_journal3 journal_ahead_inserted])

lemma all_rows_journal_ahead:
  "all_rows journal_ahead = all_rows journal3 @
     [stored_row 4 ''2024-01-20'' ''Planned'' [] [] ''good'' 4 [U ''Future work''] [] []
        ''2024-01-17T11:00:00'']"
  by (rule insert_entry_InrD(3) [OF journal_ahead_inserted])

lemma get_db_journal_ahead: "get_db journal_ahead = journal_ahead"
  by (rule insert_entry_InrD(5) [OF journal_ahead_inserted])

lemma isoformat_examples:
  "isoformat 738902 = ''2024-01-17''"
  "isoformat 738900 = ''2024-01-15''"
  "isoformat 738872 = ''2023-12-18''"
  by (simp_all add: isoformat_def ord2ymd_def Let_def zero_padded_def digits10.simps
      DAYS_BEFORE_MONTH_def DAYS_IN_MONTH_def)

lemma valid_date_738902: "valid_date 738902"
  by (simp add: valid_date_def MAXORDINAL_def)

lemma week_of_738902: "date_sub_days 738902 (weekday 738902) = Inr 738900"
  using week_start(1) [OF valid_date_738902] by (simp add: weekday_def)

text \<open>
  C3 on the example journal, on Wednesday 2024-01-17: the entries of Monday (2 hours)
  and of Wednesday (3 hours), whose total is \<^verbatim>\<open>sum([2.0, 3.0])\<close>.
\<close>

theorem weekly_from_monday_journal3:
  "reachable journal3 \<and> valid_date 738902
   \<and> weekday 738902 = 2
   \<and> isoformat (738902 - weekday 738902) = ''2024-01-15''
   \<and> (\<forall>py_sum. cmd_weekly py_sum 738902 journal3 =
        (journal3, Inr (2, py_sum [2, 3], [U ''Ship it'', U ''Tests pass'', U ''Review PR''])))"
proof -
  have "cmd_weekly py_sum 738902 journal3 =
        (journal3, Inr (2, py_sum [2, 3], [U ''Ship it'', U ''Tests pass'', U ''Review PR'']))"
    for py_sum
    by (simp add: cmd_weekly_def week_of_738902 get_db_journal3 all_rows_journal3
        isoformat_examples order_by_def stored_row_def json_loads_dumps_any)
  moreover have "weekday 738902 = 2" by (simp add: weekday_def)
  ultimately show ?thesis
    using weekly_from_monday [OF reachable_journal3 valid_date_738902, where py_sum = sum_list]
    by (simp add: reachable_journal3 valid_date_738902 isoformat_examples)
qed

text \<open>
  C3 as stated fails when an entry is dated after \<open>today\<close>: on Wednesday 2024-01-17
  the entry of Saturday 2024-01-20 is counted, with its 4 hours and its accomplishment:
  the total is \<^verbatim>\<open>sum([2.0, 3.0, 4.0])\<close>.
\<close>

theorem weekly_counts_later_entries:
  "isoformat 738902 = ''2024-01-17''
   \<and> map col_date (all_rows journal_ahead) =
        [''2019-12-31'', ''2024-01-15'', ''2024-01-17'', ''2024-01-20'']
   \<and> map col_focus_hours (all_rows journal_ahead) = [1, 2, 3, 4]
   \<and> (\<forall>py_sum. cmd_weekly py_sum 738902 journal_ahead =
        (journal_ahead, Inr (3, py_sum [2, 3, 4],
           [U ''Ship it'', U ''Tests pass'', U ''Review PR'', U ''Future work''])))"
  by (simp add: cmd_weekly_def week_of_738902 get_db_journal_ahead all_rows_journal_ahead
      all_rows_journal3 isoformat_examples order_by_def stored_row_def json_loads_dumps_any)

section \<open>The Markdown export\<close>

text \<open>
  C9. When \<^verbatim>\<open>cmd_export_md\<close> is called without a start date, the range starts at
  \<^verbatim>\<open>2020-01-01\<close>: the export takes exactly the entries whose date text lies between
  \<^verbatim>\<open>2020-01-01\<close> and the end of the range, in ascending order of date; no entry
  whose date text is before \<^verbatim>\<open>2020-01-01\<close> is among them. With no such entry the
  export reports that and writes nothing; otherwise it writes them to the file named
  after the range and ends without an error, unless the file system refuses: then it
  ends with the exception of \<^verbatim>\<open>open\<close> or \<^verbatim>\<open>write\<close>.
\<close>

theorem export_default_start:
  assumes "reachable s" "arg_start args = None"
  shows "\<exists>rows es until fname.
      until = or_default (arg_end args) (isoformat today)
      \<and> fname = ''journal_2020-01-01_'' @ until @ ''.md''
      \<and> mset rows = mset (filter (\<lambda>r. ''2020-01-01'' \<le> col_date r \<and> col_date r \<le> until)
                              (all_rows s))
      \<and> sorted (map col_date rows)
      \<and> map row_to_entry rows = map Inr es
      \<and> cmd_export_md WRITE args today s =
          (get_db s,
           if rows = [] then Inr None
           else (case WRITE fname (''2020-01-01'', until, es) of
                   Some e \<Rightarrow> Inl e
                 | None \<Rightarrow> Inr (Some (fname, es))))
      \<and> (\<forall>r\<in>set (all_rows s). col_date r < ''2020-01-01'' \<longrightarrow>
            r \<notin> set rows \<and> col_id r \<notin> entry_id ` set es)"
proof -
  define until where "until = or_default (arg_end args) (isoformat today)"
  define fname where "fname = ''journal_2020-01-01_'' @ until @ ''.md''"
  define rows where
    "rows = order_by col_date
       (filter (\<lambda>r. ''2020-01-01'' \<le> col_date r \<and> col_date r \<le> until) (all_rows s))"
  have m: "mset rows = mset (filter (\<lambda>r. ''2020-01-01'' \<le> col_date r \<and> col_date r \<le> until)
                              (all_rows s))"
    by (simp add: rows_def order_by_def)
  have so: "sorted (map col_date rows)"
    by (simp add: rows_def order_by_def)
  have sub: "set rows \<subseteq> set (all_rows s)"
    by (auto simp: rows_def order_by_def)
  have from2020: "''2020-01-01'' \<le> col_date r" if "r \<in> set rows" for r
    using that by (simp add: rows_def order_by_def)
  have "\<forall>r\<in>set rows. \<exists>e. row_to_entry r = Inr e"
    using reachable_row_to_entry [OF assms(1)] sub by blast
  from for_each_Inr [OF this] obtain es where
    es: "for_each row_to_entry rows = Inr es" "map row_to_entry rows = map Inr es" by blast
  have st: "or_default (arg_start args) ''2020-01-01'' = ''2020-01-01''"
    using assms(2) by (simp add: or_default_def)
  have c: "cmd_export_md WRITE args today s =
          (get_db s,
           if rows = [] then Inr None
           else (case WRITE fname (''2020-01-01'', until, es) of
                   Some e \<Rightarrow> Inl e
                 | None \<Rightarrow> Inr (Some (fname, es))))"
    using es(1) unfolding fname_def
    by (simp add: cmd_export_md_def st all_rows_get_db until_def [symmetric] rows_def [symmetric]
        Let_def split: option.split)
  have ids: "entry_id ` set es = col_id ` set rows"
  proof -
    have "length es = length rows" using es(2) by (metis length_map)
    moreover have "entry_id (es ! i) = col_id (rows ! i)" if "i < length rows" for i
    proof -
      have "row_to_entry (rows ! i) = Inr (es ! i)"
        using es(2) that \<open>length es = length rows\<close> by (metis nth_map)
      then show ?thesis by (rule row_to_entry_InrD(1))
    qed
    ultimately have "map entry_id es = map col_id rows"
      by (simp add: list_eq_iff_nth_eq)
    then show ?thesis by (metis set_map)
  qed
  have ex: "r \<notin> set rows \<and> col_id r \<notin> entry_id ` set es"
    if r: "r \<in> set (all_rows s)" "col_date r < ''2020-01-01''" for r
  proof
    show "r \<notin> set rows" using from2020 [of r] r(2) by auto
    show "col_id r \<notin> entry_id ` set es"
    proof
      assume "col_id r \<in> entry_id ` set es"
      then obtain x where x: "x \<in> set rows" "col_id x = col_id r"
        unfolding ids by auto
      then have "x \<in> set (all_rows s)" using sub by blast
      with reachable_distinct [OF assms(1)] r(1) x(2) have "x = r"
        by (meson distinct_map inj_onD)
      with x(1) from2020 [of r] r(2) show False by auto
    qed
  qed
  show ?thesis
  proof (intro exI conjI)
    show "until = or_default (arg_end args) (isoformat today)" by (rule until_def)
    show "fname = ''journal_2020-01-01_'' @ until @ ''.md''" by (rule fname_def)
    show "mset rows = mset (filter (\<lambda>r. ''2020-01-01'' \<le> col_date r \<and> col_date r \<le> until)
                              (all_rows s))" by (rule m)
    show "sorted (map col_date rows)" by (rule so)
    show "map row_to_entry rows = map Inr es" by (rule es(2))
    show "cmd_export_md WRITE args today s =
          (get_db s,
           if rows = [] then Inr None
           else (case WRITE fname (''2020-01-01'', until, es) of
                   Some e \<Rightarrow> Inl e
                 | None \<Rightarrow> Inr (Some (fname, es))))" by (rule c)
    show "\<forall>r\<in>set (all_rows s). col_date r < ''2020-01-01'' \<longrightarrow>
            r \<notin> set rows \<and> col_id r \<notin> entry_id ` set es"
      using ex by blast
  qed
qed

text \<open>
  C9 on the example journal, in a directory without subdirectories: the entry of
  2019-12-31 is left out; and with the end \<^verbatim>\<open>2024-01-17/x\<close> the file cannot be opened.
\<close>

theorem export_default_start_journal3:
  "reachable journal3
   \<and> map col_date (all_rows journal3) = [''2019-12-31'', ''2024-01-15'', ''2024-01-17'']
   \<and> cmd_export_md flat_directory \<lparr>arg_start = None, arg_end = None\<rparr> 738902 journal3 =
       (journal3,
        Inr (Some (''journal_2020-01-01_2024-01-17.md'',
          [\<lparr>entry_id = 2, entry_date = ''2024-01-15'',
             entry_title = ''Shipping OAuth feature'', entry_body = ''body'',
             entry_tags = [U ''python'', U ''api'', U ''python''], entry_mood = ''great'',
             entry_focus_hours = 2, entry_accomplishments = [U ''Ship it'', U ''Tests pass''],
             entry_blockers = [U ''DB is slow''], entry_tomorrow = [U ''Write docs'', U ''Review PR''],
             entry_created_at = ''2024-01-15T17:30:00''\<rparr>,
           \<lparr>entry_id = 3, entry_date = ''2024-01-17'',
             entry_title = ''Nothing special'', entry_body = ''OAuth follow up'',
             entry_tags = [], entry_mood = ''ok'',
             entry_focus_hours = 3, entry_accomplishments = [U ''Review PR''],
             entry_blockers = [], entry_tomorrow = [],
             entry_created_at = ''2024-01-17T09:00:00''\<rparr>])))
   \<and> cmd_export_md flat_directory \<lparr>arg_start = None, arg_end = Some ''2024-01-17/x''\<rparr>
         738902 journal3 = (journal3, Inl OSError)"
proof -
  have a: "arg_start \<lparr>arg_start = None, arg_end = None\<rparr> = None" by simp
  have b: "cmd_export_md flat_directory \<lparr>arg_start = None, arg_end = Some ''2024-01-17/x''\<rparr>
         738902 journal3 = (journal3, Inl OSError)"
    by (simp add: cmd_export_md_def get_db_journal3 all_rows_journal3 stored_row_def
        or_default_def order_by_def row_to_entry_def json_loads_dumps_any flat_directory_def)
  show ?thesis
    using export_default_start [OF reachable_journal3 a, where WRITE = flat_directory
        and today = 738902]
    by (simp add: b reachable_journal3 cmd_export_md_def get_db_journal3 all_rows_journal3
        or_default_def isoformat_examples order_by_def row_to_entry_stored_row
        flat_directory_def)
qed

section \<open>Full-text search\<close>

lemma concat_map_if:
  assumes "\<forall>e\<in>set xs. g e = (if Q e then [e] else [])"
  shows "concat (map g xs) = filter Q xs"
  using assms by (induction xs) simp_all

lemma join_one_row:
  assumes "distinct (map col_id rs)" "e \<in> set rs"
  shows "concat (map (\<lambda>f. if col_id e = rowid f \<and> P f then [e] else []) (map doc_of rs)) =
         (if P (doc_of e) then [e] else [])"
  using assms
proof (induction rs)
  case Nil
  then show ?case by simp
next
  case (Cons a rs)
  show ?case
  proof (cases "a = e")
    case True
    have "col_id e \<noteq> col_id x" if "x \<in> set rs" for x
      using Cons.prems(1) True that by (metis distinct.simps(2) imageI list.simps(9) set_map)
    then have "concat (map (\<lambda>f. if col_id e = rowid f \<and> P f then [e] else []) (map doc_of rs)) = []"
      by (auto simp: rowid_doc_of)
    with True show ?thesis by (simp add: rowid_doc_of)
  next
    case False
    with Cons.prems have e: "e \<in> set rs" by simp
    with Cons.prems(1) have "col_id a \<noteq> col_id e" by auto
    with Cons.IH [OF _ e] Cons.prems(1) show ?thesis by (simp add: rowid_doc_of)
  qed
qed

text \<open>On a reachable store the join with the index selects the rows whose document matches.\<close>

lemma join_matching:
  assumes "reachable s"
  shows "[e. e \<leftarrow> all_rows s, f \<leftarrow> all_docs s, col_id e = rowid f \<and> matches f] =
         filter (\<lambda>r. matches (doc_of r)) (all_rows s)"
proof -
  have "\<forall>e\<in>set (all_rows s).
      concat (map (\<lambda>f. if col_id e = rowid f \<and> matches f then [e] else []) (all_docs s)) =
      (if matches (doc_of e) then [e] else [])"
    unfolding reachable_in_sync [OF assms]
    using join_one_row [OF reachable_distinct [OF assms]] by blast
  then show ?thesis by (rule concat_map_if)
qed

lemma sorted_wrt_order_by_desc: "sorted_wrt (\<ge>) (map key (order_by_desc key xs))"
proof -
  have "sorted (map key (sort_key key (rev xs)))" by simp
  then have "sorted_wrt (\<ge>) (rev (map key (sort_key key (rev xs))))"
    by (simp add: sorted_wrt_rev)
  then show ?thesis by (simp add: order_by_desc_def rev_map)
qed

lemma mset_order_by_desc: "mset (order_by_desc key xs) = mset xs"
  by (simp add: order_by_desc_def)

lemma sorted_wrt_take_drop:
  assumes "sorted_wrt P ys" "x \<in> set (take n ys)" "y \<in> set (drop n ys)"
  shows "P x y"
proof -
  have "sorted_wrt P (take n ys @ drop n ys)" using assms(1) by simp
  then show ?thesis using assms(2,3) unfolding sorted_wrt_append by blast
qed

lemma map_Inr_entries:
  assumes "map row_to_entry rs = map Inr es"
  shows "map entry_date es = map col_date rs"
proof -
  have len: "length es = length rs" using assms by (metis length_map)
  moreover have "entry_date (es ! i) = col_date (rs ! i)" if "i < length rs" for i
  proof -
    have "row_to_entry (rs ! i) = Inr (es ! i)"
      using assms that len by (metis nth_map)
    then show ?thesis by (rule row_to_entry_InrD(2))
  qed
  ultimately show ?thesis by (simp add: list_eq_iff_nth_eq)
qed

text \<open>
  C7. For every reachable store and every query that the index accepts, the search
  ends without an error and returns entries of the store whose documents match the
  query, latest date first (each date is not after the one in front of it), twenty at
  most: all the matching entries when there are at most twenty, and otherwise twenty
  of them such that no matching entry left out has a later date than a returned one.
  When nothing matches, the result is the empty list, not an error.
\<close>

theorem search_latest_first:
  assumes "reachable s" "MATCH query = Some matches"
  shows "\<exists>rows es.
      cmd_search MATCH query s = (get_db s, Inr es)
      \<and> map row_to_entry rows = map Inr es
      \<and> mset rows \<subseteq># mset (filter (\<lambda>r. matches (doc_of r)) (all_rows s))
      \<and> length es = min 20 (length (filter (\<lambda>r. matches (doc_of r)) (all_rows s)))
      \<and> length es \<le> 20
      \<and> sorted_wrt (\<ge>) (map entry_date es)
      \<and> (\<forall>x\<in>#mset (filter (\<lambda>r. matches (doc_of r)) (all_rows s)) - mset rows.
            \<forall>r\<in>set rows. col_date x \<le> col_date r)
      \<and> ((\<forall>r\<in>set (all_rows s). \<not> matches (doc_of r)) \<longrightarrow> es = [])"
proof -
  define found where "found = filter (\<lambda>r. matches (doc_of r)) (all_rows s)"
  define ys where "ys = order_by_desc col_date found"
  define rows where "rows = take 20 ys"
  have my: "mset ys = mset found" by (simp add: ys_def mset_order_by_desc)
  have sy: "sorted_wrt (\<ge>) (map col_date ys)" by (simp add: ys_def sorted_wrt_order_by_desc)
  have ly: "length ys = length found" using my by (metis size_mset)
  have split: "mset found = mset rows + mset (drop 20 ys)"
    unfolding rows_def my [symmetric] by (metis append_take_drop_id mset_append)
  have sub: "mset rows \<subseteq># mset found" unfolding split by simp
  have rest: "mset found - mset rows = mset (drop 20 ys)" unfolding split by simp
  have "set rows \<subseteq> set (all_rows s)"
    using sub by (metis found_def filter_is_subset set_mset_mono set_mset_mset subset_trans)
  then have "\<forall>r\<in>set rows. \<exists>e. row_to_entry r = Inr e"
    using reachable_row_to_entry [OF assms(1)] by blast
  from for_each_Inr [OF this] obtain es where
    es: "for_each row_to_entry rows = Inr es" "map row_to_entry rows = map Inr es" by blast
  have c: "cmd_search MATCH query s = (get_db s, Inr es)"
    using es(1) join_matching [OF assms(1), of matches]
    by (simp add: cmd_search_def assms(2) all_rows_get_db all_docs_get_db
        found_def [symmetric] ys_def [symmetric] rows_def [symmetric])
  have le: "length es = length rows" using es(2) by (metis length_map)
  have len: "length es = min 20 (length found)"
    unfolding le rows_def by (simp add: ly)
  have dates: "map entry_date es = map col_date rows" by (rule map_Inr_entries [OF es(2)])
  have so: "sorted_wrt (\<ge>) (map entry_date es)"
    unfolding dates rows_def using sy by (simp add: take_map [symmetric] sorted_wrt_take)
  have top: "col_date x \<le> col_date r" if "x \<in># mset found - mset rows" "r \<in> set rows" for x r
  proof -
    from that(1) have x: "col_date x \<in> set (drop 20 (map col_date ys))"
      unfolding rest by (simp add: drop_map)
    from that(2) have r: "col_date r \<in> set (take 20 (map col_date ys))"
      unfolding rows_def by (simp add: take_map)
    from sorted_wrt_take_drop [OF sy r x] show ?thesis by simp
  qed
  have none: "es = []" if "\<forall>r\<in>set (all_rows s). \<not> matches (doc_of r)"
  proof -
    from that have "found = []" by (simp add: found_def filter_empty_conv)
    with len show ?thesis by simp
  qed
  show ?thesis
  proof (intro exI conjI)
    show "cmd_search MATCH query s = (get_db s, Inr es)" by (rule c)
    show "map row_to_entry rows = map Inr es" by (rule es(2))
    show "mset rows \<subseteq># mset (filter (\<lambda>r. matches (doc_of r)) (all_rows s))"
      using sub by (simp add: found_def)
    show "length es = min 20 (length (filter (\<lambda>r. matches (doc_of r)) (all_rows s)))"
      using len by (simp add: found_def)
    show "length es \<le> 20" using len by simp
    show "sorted_wrt (\<ge>) (map entry_date es)" by (rule so)
    show "\<forall>x\<in>#mset (filter (\<lambda>r. matches (doc_of r)) (all_rows s)) - mset rows.
            \<forall>r\<in>set rows. col_date x \<le> col_date r"
      using top by (simp add: found_def)
    show "(\<forall>r\<in>set (all_rows s). \<not> matches (doc_of r)) \<longrightarrow> es = []"
      using none by blast
  qed
qed

text \<open>
  C4 (as the code has it). For every query that the index rejects, the
  \<^verbatim>\<open>sqlite3.OperationalError\<close> of the query leaves \<^verbatim>\<open>cmd_search\<close>: no handler
  catches it and nothing reports it as an error of its own kind. The rows and the
  documents of the store stay as they were.
\<close>

theorem search_rejected_query:
  assumes "MATCH query = None"
  shows "cmd_search MATCH query s = (get_db s, Inl OperationalError)
    \<and> all_rows (get_db s) = all_rows s
    \<and> all_docs (get_db s) = all_docs s"
  using assms by (simp add: cmd_search_def all_rows_get_db all_docs_get_db)

text \<open>The examples.\<close>

lemma all_docs_journal3: "all_docs journal3 = map doc_of (all_rows journal3)"
  by (rule reachable_in_sync [OF reachable_journal3])

lemma example_fts5_OAuth:
  "example_fts5 ''OAuth'' = Some (\<lambda>f. ''OAuth'' \<in> set (str_split (CHR '' '') (fts_title f))
                     \<or> ''OAuth'' \<in> set (str_split (CHR '' '') (fts_body f)))"
  by (simp add: example_fts5_def)

lemma example_fts5_xyzzy:
  "example_fts5 ''xyzzy'' = Some (\<lambda>f. ''xyzzy'' \<in> set (str_split (CHR '' '') (fts_title f))
                     \<or> ''xyzzy'' \<in> set (str_split (CHR '' '') (fts_body f)))"
  by (simp add: example_fts5_def)

text \<open>
  C7 on the example journal: \<^verbatim>\<open>OAuth\<close> finds the entry of 2024-01-17 and then the
  entry of 2024-01-15; \<^verbatim>\<open>xyzzy\<close> finds nothing.
\<close>

theorem search_latest_first_journal3:
  "reachable journal3
   \<and> cmd_search example_fts5 ''OAuth'' journal3 =
       (journal3,
        Inr [\<lparr>entry_id = 3, entry_date = ''2024-01-17'',
               entry_title = ''Nothing special'', entry_body = ''OAuth follow up'',
               entry_tags = [], entry_mood = ''ok'',
               entry_focus_hours = 3, entry_accomplishments = [U ''Review PR''],
               entry_blockers = [], entry_tomorrow = [],
               entry_created_at = ''2024-01-17T09:00:00''\<rparr>,
             \<lparr>entry_id = 2, entry_date = ''2024-01-15'',
               entry_title = ''Shipping OAuth feature'', entry_body = ''body'',
               entry_tags = [U ''python'', U ''api'', U ''python''], entry_mood = ''great'',
               entry_focus_hours = 2, entry_accomplishments = [U ''Ship it'', U ''Tests pass''],
               entry_blockers = [U ''DB is slow''], entry_tomorrow = [U ''Write docs'', U ''Review PR''],
               entry_created_at = ''2024-01-15T17:30:00''\<rparr>])
   \<and> cmd_search example_fts5 ''xyzzy'' journal3 = (journal3, Inr [])"
proof -
  have "cmd_search example_fts5 ''xyzzy'' journal3 = (journal3, Inr [])"
    by (simp add: cmd_search_def example_fts5_xyzzy get_db_journal3 all_docs_journal3
        all_rows_journal3 doc_of_def order_by_desc_def)
  then show ?thesis
    using search_latest_first [where MATCH = example_fts5 and query = "''OAuth''",
        OF reachable_journal3 example_fts5_OAuth]
    by (simp add: reachable_journal3 cmd_search_def example_fts5_OAuth get_db_journal3
        all_docs_journal3 all_rows_journal3 doc_of_def order_by_desc_def
        row_to_entry_stored_row)
qed

text \<open>C4 on the example journal, for the query \<^verbatim>\<open>AND\<close>.\<close>

theorem search_rejected_query_journal3:
  "example_fts5 ''AND'' = None
   \<and> cmd_search example_fts5 ''AND'' journal3 = (journal3, Inl OperationalError)
   \<and> map col_id (all_rows journal3) = [1, 2, 3]"
proof -
  have a: "example_fts5 ''AND'' = None" by (simp add: example_fts5_def)
  show ?thesis
    using search_rejected_query [where MATCH = example_fts5 and query = "''AND''" and s = journal3,
        OF a]
    by (simp add: a get_db_journal3 all_rows_journal3)
qed

text \<open>
  C4 as stated fails: for the query \<^verbatim>\<open>NOT\<close>, which the index rejects, the outcome of
  \<^verbatim>\<open>cmd_search\<close> is the exception \<^verbatim>\<open>OperationalError\<close>, neither a report followed by
  \<^verbatim>\<open>sys.exit\<close> nor a normal return.
\<close>

theorem search_raises_on_reserved_word:
  "example_fts5 ''NOT'' = None
   \<and> snd (cmd_search example_fts5 ''NOT'' new_file) = Inl OperationalError"
  by (simp add: example_fts5_def cmd_search_def)

section \<open>The mood trend\<close>

lemma index_of_absent: "x \<notin> set xs \<Longrightarrow> index_of xs x = Inl ValueError"
  by (induction xs) auto

lemma index_of_present: "x \<in> set xs \<Longrightarrow> \<exists>n. index_of xs x = Inr n"
  by (induction xs) auto

lemma index_of_Inl: "index_of xs x = Inl e \<Longrightarrow> e = ValueError"
  by (cases "x \<in> set xs") (auto dest: index_of_present simp: index_of_absent)

lemma fst_group_by_mood: "fst ` set (group_by_mood rs) = col_mood ` set rs"
  by (force simp: group_by_mood_def)

text \<open>
  C10. \<^verbatim>\<open>cmd_mood_trend\<close> is partial in the stored moods. Let the first day of its
  window be a date (the subtraction of the days from \<open>today\<close> does not overflow).
  If some entry of the window has a mood outside \<^verbatim>\<open>MOODS\<close>, the command ends with the
  \<^verbatim>\<open>ValueError\<close> of \<^verbatim>\<open>MOODS.index\<close>, which nothing catches; if every entry of the
  window has a mood of \<^verbatim>\<open>MOODS\<close>, it ends normally. So it ends normally only when
  all the moods that it counts are in \<^verbatim>\<open>MOODS\<close>.
\<close>

theorem mood_trend_partial:
  assumes "date_sub_days today (days_or_30 arg_days) = Inr since_date"
  shows "((\<exists>r\<in>set (all_rows s). isoformat since_date \<le> col_date r \<and> col_mood r \<notin> set MOODS) \<longrightarrow>
            cmd_mood_trend arg_days today s = (get_db s, Inl ValueError))
    \<and> ((\<forall>r\<in>set (all_rows s). isoformat since_date \<le> col_date r \<longrightarrow> col_mood r \<in> set MOODS) \<longrightarrow>
            (\<exists>v. cmd_mood_trend arg_days today s = (get_db s, Inr v)))"
proof -
  define window where
    "window = filter (\<lambda>r. isoformat since_date \<le> col_date r) (all_rows s)"
  define groups where "groups = group_by_mood window"
  have cmd: "cmd_mood_trend arg_days today s =
      (get_db s,
       if groups = [] then Inr None
       else (case sorted_by_key (\<lambda>r. index_of MOODS (fst r)) groups of
               Inl e \<Rightarrow> Inl e
             | Inr sorted_rows \<Rightarrow> Inr (Some (sum_list (map snd groups), sorted_rows))))"
    by (simp add: cmd_mood_trend_def assms all_rows_get_db window_def [symmetric]
        groups_def [symmetric] Let_def)
  have moods: "fst ` set groups = col_mood ` set window"
    unfolding groups_def by (rule fst_group_by_mood)
  have bad: "cmd_mood_trend arg_days today s = (get_db s, Inl ValueError)"
    if "\<exists>r\<in>set (all_rows s). isoformat since_date \<le> col_date r \<and> col_mood r \<notin> set MOODS"
  proof -
    from that obtain r where r: "r \<in> set window" "col_mood r \<notin> set MOODS"
      by (auto simp: window_def)
    then have "col_mood r \<in> fst ` set groups" unfolding moods by simp
    then obtain g where g: "g \<in> set groups" "fst g = col_mood r" by auto
    then have "index_of MOODS (fst g) = Inl ValueError"
      using r(2) by (simp add: index_of_absent)
    moreover have "\<forall>x'\<in>set groups. \<forall>e'. index_of MOODS (fst x') = Inl e' \<longrightarrow> e' = ValueError"
      by (auto dest: index_of_Inl)
    ultimately have "for_each (\<lambda>r. index_of MOODS (fst r)) groups = Inl ValueError"
      using g(1) by (intro for_each_Inl [of g]) simp_all
    moreover have "groups \<noteq> []" using g(1) by auto
    ultimately show ?thesis by (simp add: cmd sorted_by_key_def)
  qed
  have good: "\<exists>v. cmd_mood_trend arg_days today s = (get_db s, Inr v)"
    if "\<forall>r\<in>set (all_rows s). isoformat since_date \<le> col_date r \<longrightarrow> col_mood r \<in> set MOODS"
  proof -
    have "\<forall>g\<in>set groups. \<exists>n. index_of MOODS (fst g) = Inr n"
    proof
      fix g assume "g \<in> set groups"
      then have "fst g \<in> col_mood ` set window" using moods by auto
      then have "fst g \<in> set MOODS" using that by (auto simp: window_def)
      then show "\<exists>n. index_of MOODS (fst g) = Inr n" by (rule index_of_present)
    qed
    from for_each_Inr [OF this] obtain keys where
      "for_each (\<lambda>r. index_of MOODS (fst r)) groups = Inr keys" by blast
    then show ?thesis by (simp add: cmd sorted_by_key_def)
  qed
  show ?thesis using bad good by blast
qed

text \<open>The examples.\<close>

lemma journal_moody_inserted:
  "insert_entry (get_db journal3) ''2024-01-17'' ''Bad day''
     [] [] ''terrible'' 1 [] [] [] ''2024-01-17T10:00:00'' = Inr (journal_moody, 4)"
  using insert_entry_projr [OF has_room_small, of journal3] insert_entry_next_id [OF journal3_inserted]
  by (simp add: journal_moody_def)

lemma all_rows_journal_moody:
  "all_rows journal_moody = all_rows journal3 @
     [stored_row 4 ''2024-01-17'' ''Bad day'' [] [] ''terrible'' 1 [] [] []
        ''2024-01-17T10:00:00'']"
  by (rule insert_entry_InrD(3) [OF journal_moody_inserted])

lemma get_db_journal_moody: "get_db journal_moody = journal_moody"
  by (rule insert_entry_InrD(5) [OF journal_moody_inserted])

lemma since_738902: "date_sub_days 738902 (days_or_30 None) = Inr 738872"
  by (simp add: date_sub_days_def days_or_30_def MAXORDINAL_def)

text \<open>
  C10 on the example journals, for the thirty days before 2024-01-17: with the entry
  of mood \<^verbatim>\<open>terrible\<close> the command raises; without it, it reports one \<^verbatim>\<open>great\<close> and
  one \<^verbatim>\<open>ok\<close>.
\<close>

theorem mood_trend_partial_examples:
  "date_sub_days 738902 (days_or_30 None) = Inr 738872
   \<and> isoformat 738872 = ''2023-12-18''
   \<and> map col_mood (all_rows journal_moody) = [''rough'', ''great'', ''ok'', ''terrible'']
   \<and> cmd_mood_trend None 738902 journal_moody = (journal_moody, Inl ValueError)
   \<and> cmd_mood_trend None 738902 journal3 =
        (journal3, Inr (Some (2, [(''great'', 1), (''ok'', 1)])))"
proof -
  have bad: "\<exists>r\<in>set (all_rows journal_moody).
      isoformat 738872 \<le> col_date r \<and> col_mood r \<notin> set MOODS"
    by (simp add: all_rows_journal_moody isoformat_examples MOODS_def)
  have "cmd_mood_trend None 738902 journal_moody = (journal_moody, Inl ValueError)"
    using mood_trend_partial [OF since_738902, of journal_moody] bad
    by (simp add: get_db_journal_moody)
  moreover have "cmd_mood_trend None 738902 journal3 =
        (journal3, Inr (Some (2, [(''great'', 1), (''ok'', 1)])))"
    by (simp add: cmd_mood_trend_def since_738902 get_db_journal3 all_rows_journal3
        isoformat_examples group_by_mood_def sorted_by_key_def MOODS_def)
  ultimately show ?thesis
    by (simp add: since_738902 isoformat_examples all_rows_journal_moody all_rows_journal3)
qed

end
